theory Spec2Isabelle
  imports Complex_Main "HOL-Library.Sublist" "HOL-Library.Multiset"
begin


section \<open>Python strings\<close>

text \<open>
  A Python \<^verbatim>\<open>str\<close> is a sequence of Unicode code points: iteration, \<^verbatim>\<open>in\<close>,
  \<^verbatim>\<open>replace\<close> and the \<^verbatim>\<open>re\<close> module all work on code points. A code point is a
  natural number here and a string a list of them. \<open>ustr\<close> reads an ASCII literal.
  Cyrillic letters are written by their code points: \<open>0x410\<close> .. \<open>0x42F\<close> are the
  capitals A .. YA, \<open>0x430\<close> .. \<open>0x44F\<close> the small letters, \<open>0x401\<close> and \<open>0x451\<close>
  are capital and small IO.
\<close>

type_synonym uchar = nat
type_synonym ustring = "uchar list"

definition ustr :: "string \<Rightarrow> ustring" where
  "ustr s = map of_char s"

text \<open>
  The characters that \<^verbatim>\<open>\s\<close> matches in a \<^verbatim>\<open>str\<close> pattern and that \<^verbatim>\<open>str.strip()\<close>
  removes (CPython's \<^verbatim>\<open>Py_UNICODE_ISSPACE\<close>).
\<close>

definition is_space :: "uchar \<Rightarrow> bool" where
  "is_space c =
     ((0x09 \<le> c \<and> c \<le> 0x0D) \<or> (0x1C \<le> c \<and> c \<le> 0x20) \<or> c = 0x85 \<or> c = 0xA0
      \<or> c = 0x1680 \<or> (0x2000 \<le> c \<and> c \<le> 0x200A) \<or> c = 0x2028 \<or> c = 0x2029
      \<or> c = 0x202F \<or> c = 0x205F \<or> c = 0x3000)"

text \<open>\<^verbatim>\<open>s.strip()\<close>: whitespace removed at both ends.\<close>

definition py_strip :: "ustring \<Rightarrow> ustring" where
  "py_strip s = rev (dropWhile is_space (rev (dropWhile is_space s)))"

text \<open>\<^verbatim>\<open>s.replace(c, '')\<close> for a one-character \<open>c\<close>: every occurrence is removed.\<close>

definition remove_char :: "uchar \<Rightarrow> ustring \<Rightarrow> ustring" where
  "remove_char c s = filter (\<lambda>x. x \<noteq> c) s"

text \<open>\<^verbatim>\<open>p in s\<close> on strings: \<open>p\<close> occurs in \<open>s\<close> as a contiguous substring.\<close>

fun contains :: "ustring \<Rightarrow> ustring \<Rightarrow> bool" where
  "contains p [] = (p = [])"
| "contains p (x # xs) = (prefix p (x # xs) \<or> contains p xs)"

section \<open>extract-ru-borders.py: the transliteration engine\<close>

text \<open>The dict literal \<^verbatim>\<open>TRANS_MAP\<close>, in the order of the source.\<close>

definition TRANS_MAP_items :: "(uchar \<times> string) list" where
  "TRANS_MAP_items = [
    (0x430, ''a''), (0x431, ''b''), (0x432, ''v''), (0x433, ''g''),
    (0x434, ''d''), (0x435, ''e''), (0x451, ''yo''), (0x436, ''zh''),
    (0x437, ''z''), (0x438, ''i''), (0x439, ''y''), (0x43A, ''k''),
    (0x43B, ''l''), (0x43C, ''m''), (0x43D, ''n''), (0x43E, ''o''),
    (0x43F, ''p''), (0x440, ''r''), (0x441, ''s''), (0x442, ''t''),
    (0x443, ''u''), (0x444, ''f''), (0x445, ''kh''), (0x446, ''ts''),
    (0x447, ''ch''), (0x448, ''sh''), (0x449, ''shch''), (0x44A, ''''),
    (0x44B, ''y''), (0x44C, ''''), (0x44D, ''e''), (0x44E, ''yu''),
    (0x44F, ''ya''), (0x410, ''A''), (0x411, ''B''), (0x412, ''V''),
    (0x413, ''G''), (0x414, ''D''), (0x415, ''E''), (0x401, ''Yo''),
    (0x416, ''Zh''), (0x417, ''Z''), (0x418, ''I''), (0x419, ''Y''),
    (0x41A, ''K''), (0x41B, ''L''), (0x41C, ''M''), (0x41D, ''N''),
    (0x41E, ''O''), (0x41F, ''P''), (0x420, ''R''), (0x421, ''S''),
    (0x422, ''T''), (0x423, ''U''), (0x424, ''F''), (0x425, ''Kh''),
    (0x426, ''Ts''), (0x427, ''Ch''), (0x428, ''Sh''), (0x429, ''Shch''),
    (0x42A, ''''), (0x42B, ''Y''), (0x42C, ''''), (0x42D, ''E''),
    (0x42E, ''Yu''), (0x42F, ''Ya'')]"

definition TRANS_MAP :: "uchar \<Rightarrow> ustring option" where
  "TRANS_MAP c = map_option ustr (map_of TRANS_MAP_items c)"

text \<open>\<^verbatim>\<open>TRANS_MAP.get(char, char)\<close>.\<close>

definition trans_char :: "uchar \<Rightarrow> ustring" where
  "trans_char c = (case TRANS_MAP c of Some v \<Rightarrow> v | None \<Rightarrow> [c])"

text \<open>
  \<^verbatim>\<open>re.sub(r'(^|\s)P', r'\1R', s)\<close> for a literal, non-empty \<open>P\<close> and a literal \<open>R\<close>.
  The scan goes from left to right. \<open>at_start\<close> tells whether the scan is at index 0 of
  the subject, the only place where \<^verbatim>\<open>^\<close> matches (no MULTILINE flag). At each index
  the first alternative is tried first: \<^verbatim>\<open>^\<close> followed by \<open>P\<close>; then the second: one
  whitespace character followed by \<open>P\<close>. A match is replaced by group 1 (empty, or the
  whitespace character) followed by \<open>R\<close>, and the scan goes on after the match. Where
  nothing matches, the character is copied and the scan moves one index on.
\<close>

function re_sub_initial :: "ustring \<Rightarrow> ustring \<Rightarrow> bool \<Rightarrow> ustring \<Rightarrow> ustring" where
  "re_sub_initial p r at_start [] = []"
| "re_sub_initial p r at_start (x # xs) =
     (if p \<noteq> [] \<and> at_start \<and> prefix p (x # xs)
        then r @ re_sub_initial p r False (drop (length p) (x # xs))
      else if p \<noteq> [] \<and> is_space x \<and> prefix p xs
        then x # r @ re_sub_initial p r False (drop (length p) xs)
      else x # re_sub_initial p r False xs)"
  by pat_completeness auto
termination
  by (relation "measure (\<lambda>(p, r, b, s). length s)") auto

text \<open>
  The four corrections of \<^verbatim>\<open>cyrillic_to_latin\<close>, in the order of the source, on a
  string that starts the subject (\<open>at_start\<close>) or continues it.
\<close>

definition fix_initial :: "bool \<Rightarrow> ustring \<Rightarrow> ustring" where
  "fix_initial at_start s =
     re_sub_initial (ustr ''yo'') (ustr ''yo'') at_start
       (re_sub_initial (ustr ''Yo'') (ustr ''Yo'') at_start
         (re_sub_initial (ustr ''e'') (ustr ''ye'') at_start
           (re_sub_initial (ustr ''E'') (ustr ''Ye'') at_start s)))"

text \<open>The hard and soft signs, capital and small, are removed before the mapping.\<close>

definition strip_signs :: "ustring \<Rightarrow> ustring" where
  "strip_signs text =
     remove_char 0x44C (remove_char 0x44A (remove_char 0x42C (remove_char 0x42A text)))"

definition cyrillic_to_latin :: "ustring \<Rightarrow> ustring" where
  "cyrillic_to_latin text =
     (let text = strip_signs text;
          transliterated = concat (map trans_char text)
      in fix_initial True transliterated)"


section \<open>Notions used in the statements about the transliteration\<close>

text \<open>
  \<open>is_sign\<close> holds of the four characters that \<open>strip_signs\<close> removes.
  \<open>boundary b s\<close> tells whether a letter that follows the text \<open>s\<close> starts a word: \<open>s\<close>
  ends in whitespace, or \<open>s\<close> is empty and \<open>b\<close> tells whether the string starts there.
  \<open>mark_initial e r b s\<close> replaces every character \<open>e\<close> that starts a word of \<open>s\<close> by the
  text \<open>r\<close>. \<open>cyrillic_to_latin_from at_start text\<close> is \<open>cyrillic_to_latin\<close> on a text
  that starts the string (\<open>at_start\<close>) or continues it after a character that is no
  whitespace.
\<close>

definition is_sign :: "uchar \<Rightarrow> bool" where
  "is_sign c = (c = 0x42A \<or> c = 0x42C \<or> c = 0x44A \<or> c = 0x44C)"

definition boundary :: "bool \<Rightarrow> ustring \<Rightarrow> bool" where
  "boundary b s = (if s = [] then b else is_space (last s))"

fun mark_initial :: "uchar \<Rightarrow> ustring \<Rightarrow> bool \<Rightarrow> ustring \<Rightarrow> ustring" where
  "mark_initial e r b [] = []"
| "mark_initial e r b (x # xs) =
     (if b \<and> x = e then r else [x]) @ mark_initial e r (is_space x) xs"

definition cyrillic_to_latin_from :: "bool \<Rightarrow> ustring \<Rightarrow> ustring" where
  "cyrillic_to_latin_from at_start text =
     fix_initial at_start (concat (map trans_char (strip_signs text)))"

section \<open>Python values and exceptions\<close>

text \<open>
  The scripts work on what \<^verbatim>\<open>json.load\<close> returns: \<^verbatim>\<open>None\<close>, booleans, integers
  (unbounded), floats, strings, lists and dicts with string keys. A dict is the list of
  its items in insertion order; its keys are distinct and a lookup reads the item of the
  key. The type \<open>'f\<close> stands for Python's \<^verbatim>\<open>float\<close>.
\<close>

datatype 'f json =
    JNull
  | JBool bool
  | JInt int
  | JFloat 'f
  | JStr ustring
  | JArr "'f json list"
  | JObj "(ustring \<times> 'f json) list"

type_synonym 'f pydict = "(ustring \<times> 'f json) list"

text \<open>The exceptions that the modelled code raises; none of them is caught but where stated.\<close>

datatype error =
  AttributeError | TypeError | KeyError | IndexError | ValueError | OverflowError | SystemExit

definition bind_err :: "error + 'a \<Rightarrow> ('a \<Rightarrow> error + 'b) \<Rightarrow> error + 'b" where
  "bind_err m f = (case m of Inl e \<Rightarrow> Inl e | Inr v \<Rightarrow> f v)"

text \<open>
  The operations of \<^verbatim>\<open>float\<close> that the scripts use are parameters of the model:
  the rounding of an integer and the parsing of a string by \<^verbatim>\<open>float(...)\<close> (\<open>None\<close>
  where it raises \<^verbatim>\<open>ValueError\<close>), and the comparisons \<^verbatim>\<open>x == n\<close> with an integer
  and \<^verbatim>\<open>x == y\<close> as a dict does it on its keys.
\<close>

record 'f float_ops =
  float_of_int :: "int \<Rightarrow> 'f"
  float_of_str :: "ustring \<Rightarrow> 'f option"
  float_eq_int :: "'f \<Rightarrow> int \<Rightarrow> bool"
  float_eq :: "'f \<Rightarrow> 'f \<Rightarrow> bool"

text \<open>Truth value of a value in \<^verbatim>\<open>if v:\<close> and \<^verbatim>\<open>a and b\<close>.\<close>

fun truthy :: "'f float_ops \<Rightarrow> 'f json \<Rightarrow> bool" where
  "truthy fl JNull = False"
| "truthy fl (JBool b) = b"
| "truthy fl (JInt n) = (n \<noteq> 0)"
| "truthy fl (JFloat x) = (\<not> float_eq_int fl x 0)"
| "truthy fl (JStr s) = (s \<noteq> [])"
| "truthy fl (JArr xs) = (xs \<noteq> [])"
| "truthy fl (JObj kvs) = (kvs \<noteq> [])"

text \<open>
  \<^verbatim>\<open>a == b\<close> where one side is \<^verbatim>\<open>None\<close>, a boolean, a number or a string, which is
  also the equality of dict keys: booleans are the integers 0 and 1, numbers compare by
  value, and values of different kinds differ. (A list or a dict is never equal to such a
  value, and is no dict key.)
\<close>

fun as_int :: "'f json \<Rightarrow> int option" where
  "as_int (JBool b) = Some (if b then 1 else 0)"
| "as_int (JInt n) = Some n"
| "as_int _ = None"

fun py_eq :: "'f float_ops \<Rightarrow> 'f json \<Rightarrow> 'f json \<Rightarrow> bool" where
  "py_eq fl JNull b = (b = JNull)"
| "py_eq fl (JStr s) b = (b = JStr s)"
| "py_eq fl (JFloat x) (JFloat y) = float_eq fl x y"
| "py_eq fl (JFloat x) b = (case as_int b of Some n \<Rightarrow> float_eq_int fl x n | None \<Rightarrow> False)"
| "py_eq fl (JArr xs) b = False"
| "py_eq fl (JObj kvs) b = False"
| "py_eq fl a (JFloat y) = (case as_int a of Some n \<Rightarrow> float_eq_int fl y n | None \<Rightarrow> False)"
| "py_eq fl a b = (case (as_int a, as_int b) of (Some n, Some m) \<Rightarrow> n = m | _ \<Rightarrow> False)"

text \<open>\<^verbatim>\<open>d.get(k, default)\<close>: only a dict has the method.\<close>

fun py_get :: "'f json \<Rightarrow> ustring \<Rightarrow> 'f json \<Rightarrow> error + 'f json" where
  "py_get (JObj kvs) k d = Inr (case map_of kvs k of Some v \<Rightarrow> v | None \<Rightarrow> d)"
| "py_get _ k d = Inl AttributeError"

text \<open>\<^verbatim>\<open>for x in v\<close>: the elements of a list, the keys of a dict, the characters of a string.\<close>

fun py_iter :: "'f json \<Rightarrow> error + 'f json list" where
  "py_iter (JArr xs) = Inr xs"
| "py_iter (JObj kvs) = Inr (map (\<lambda>(k, v). JStr k) kvs)"
| "py_iter (JStr s) = Inr (map (\<lambda>c. JStr [c]) s)"
| "py_iter _ = Inl TypeError"

text \<open>
  \<^verbatim>\<open>xs[i]\<close> on a list or a string: an index from \<open>-len\<close> to \<open>-1\<close> counts from the end,
  an index out of range raises \<^verbatim>\<open>IndexError\<close>.
\<close>

definition seq_index :: "'a list \<Rightarrow> int \<Rightarrow> error + 'a" where
  "seq_index xs i =
     (if 0 \<le> i \<and> i < int (length xs) then Inr (xs ! nat i)
      else if i < 0 \<and> - int (length xs) \<le> i then Inr (xs ! nat (int (length xs) + i))
      else Inl IndexError)"

text \<open>
  \<^verbatim>\<open>v[k]\<close>: a dict by key (a list or a dict is not hashable), a list or a string by an
  integer or a boolean; nothing else can be subscripted.
\<close>

fun py_getitem :: "'f json \<Rightarrow> 'f json \<Rightarrow> error + 'f json" where
  "py_getitem (JObj kvs) (JStr k) = (case map_of kvs k of Some v \<Rightarrow> Inr v | None \<Rightarrow> Inl KeyError)"
| "py_getitem (JObj kvs) (JArr xs) = Inl TypeError"
| "py_getitem (JObj kvs) (JObj ys) = Inl TypeError"
| "py_getitem (JObj kvs) k = Inl KeyError"
| "py_getitem (JArr xs) k =
     (case as_int k of Some i \<Rightarrow> seq_index xs i | None \<Rightarrow> Inl TypeError)"
| "py_getitem (JStr s) k =
     (case as_int k of Some i \<Rightarrow> map_sum id (\<lambda>c. JStr [c]) (seq_index s i) | None \<Rightarrow> Inl TypeError)"
| "py_getitem _ k = Inl TypeError"

text \<open>\<^verbatim>\<open>d[k] = v\<close> on a dict: the item of \<open>k\<close> is replaced in place, a new key is added last.\<close>

fun dict_set :: "'f pydict \<Rightarrow> ustring \<Rightarrow> 'f json \<Rightarrow> 'f pydict" where
  "dict_set [] k v = [(k, v)]"
| "dict_set ((k', v') # d) k v = (if k' = k then (k, v) # d else (k', v') # dict_set d k v)"

text \<open>\<^verbatim>\<open>d[k]\<close> on a dict with string keys.\<close>

definition dict_getitem :: "'f pydict \<Rightarrow> ustring \<Rightarrow> error + 'f json" where
  "dict_getitem d k = (case map_of d k of Some v \<Rightarrow> Inr v | None \<Rightarrow> Inl KeyError)"

section \<open>extract-ru-borders.py: the record normalizer\<close>

text \<open>
  \<^verbatim>\<open>re.sub(r'\s*\(.*?\)\s*', '', s)\<close>. A match at the current index takes the longest
  run of whitespace (a shorter run is followed by whitespace, not by the parenthesis),
  then \<^verbatim>\<open>(\<close>, then as few characters other than a newline as possible up to a \<^verbatim>\<open>)\<close>,
  then the longest run of whitespace. \<open>close_paren\<close> looks for that \<^verbatim>\<open>)\<close> and returns
  what follows it. Every match is removed, and the scan goes on after it; where nothing
  matches, the character is copied.
\<close>

fun close_paren :: "ustring \<Rightarrow> ustring option" where
  "close_paren [] = None"
| "close_paren (c # cs) =
     (if c = 0x29 then Some cs else if c = 0x0A then None else close_paren cs)"

definition match_paren :: "ustring \<Rightarrow> ustring option" where
  "match_paren s =
     (case dropWhile is_space s of
        [] \<Rightarrow> None
      | c # cs \<Rightarrow>
          if c = 0x28 then map_option (dropWhile is_space) (close_paren cs) else None)"

function re_sub_parens :: "ustring \<Rightarrow> ustring" where
  "re_sub_parens [] = []"
| "re_sub_parens (x # xs) =
     (case match_paren (x # xs) of
        Some rest \<Rightarrow> re_sub_parens rest
      | None \<Rightarrow> x # re_sub_parens xs)"
  by pat_completeness auto
termination
proof (relation "measure length")
  show "wf (measure length)" by simp
next
  fix x :: uchar and xs rest :: ustring
  assume m: "match_paren (x # xs) = Some rest"
  have cp: "close_paren cs = Some r \<Longrightarrow> length r < length cs" for cs r
    by (induction cs) (auto split: if_splits)
  from m obtain c cs r where d: "dropWhile is_space (x # xs) = c # cs"
    and r: "close_paren cs = Some r" and rest: "rest = dropWhile is_space r"
    by (auto simp: match_paren_def split: list.splits if_splits)
  have "length rest \<le> length r" using rest by (simp add: length_dropWhile_le)
  also have "\<dots> < length cs" using r by (rule cp)
  also have "\<dots> < length (c # cs)" by simp
  also have "\<dots> \<le> length (x # xs)" unfolding d [symmetric] by (rule length_dropWhile_le)
  finally show "(rest, x # xs) \<in> measure length" by simp
next
  fix x :: uchar and xs :: ustring
  show "(xs, x # xs) \<in> measure length" by simp
qed

text \<open>
  \<^verbatim>\<open>cyrillic_to_latin(text)\<close> on a value: the first statement calls \<^verbatim>\<open>text.replace\<close>,
  which only a string has.
\<close>

fun cyrillic_to_latin_value :: "'f json \<Rightarrow> error + ustring" where
  "cyrillic_to_latin_value (JStr s) = Inr (cyrillic_to_latin s)"
| "cyrillic_to_latin_value _ = Inl AttributeError"

text \<open>\<^verbatim>\<open>c.get(k1, {}).get(k2, {}).get(k3)\<close> and \<^verbatim>\<open>c.get(k1, {}).get(k2)\<close>.\<close>

definition get2 :: "'f json \<Rightarrow> ustring \<Rightarrow> ustring \<Rightarrow> error + 'f json" where
  "get2 c k1 k2 = bind_err (py_get c k1 (JObj [])) (\<lambda>a. py_get a k2 JNull)"

definition get3 :: "'f json \<Rightarrow> ustring \<Rightarrow> ustring \<Rightarrow> ustring \<Rightarrow> error + 'f json" where
  "get3 c k1 k2 k3 =
     bind_err (py_get c k1 (JObj [])) (\<lambda>a.
     bind_err (py_get a k2 (JObj [])) (\<lambda>b. py_get b k3 JNull))"

text \<open>Lines 63 to 67: \<^verbatim>\<open>name_en\<close> from \<^verbatim>\<open>full_name\<close>.\<close>

definition name_en_of :: "ustring \<Rightarrow> ustring" where
  "name_en_of full_name =
     (if 0x28 \<in> set full_name then py_strip (re_sub_parens full_name) else full_name)"

text \<open>Lines 58 to 70: the new dict with its name fields.\<close>

definition name_fields :: "'f float_ops \<Rightarrow> 'f json \<Rightarrow> error + 'f pydict" where
  "name_fields fl title_ru =
     (if truthy fl title_ru then
        bind_err (cyrillic_to_latin_value title_ru) (\<lambda>full_name.
          let nc = dict_set [] (ustr ''name_ru'') title_ru;
              nc = dict_set nc (ustr ''full_name'') (JStr full_name);
              nc = dict_set nc (ustr ''name_en'') (JStr (name_en_of full_name));
              nc = dict_set nc (ustr ''name'') (JStr (name_en_of full_name))
          in Inr nc)
      else Inr (dict_set [] (ustr ''name'') JNull))"

text \<open>Lines 74 to 78: the status code of the enumerated label.\<close>

definition classify_status :: "'f float_ops \<Rightarrow> 'f json \<Rightarrow> 'f json" where
  "classify_status fl status_en =
     (if py_eq fl status_en (JStr (ustr ''Bilateral'')) then JInt 1
      else if py_eq fl status_en (JStr (ustr ''Multilateral'')) then JInt 2
      else JNull)"

text \<open>
  Lines 90 to 93. \<^verbatim>\<open>new_checkpoint['name_en']\<close> raises \<^verbatim>\<open>KeyError\<close> when the key was not
  set. When it was set, by line 65 or 67, its value is a string, which the f-string joins
  with \<^verbatim>\<open>foreign_name\<close>; the last case of the \<open>case\<close> below is never reached from
  \<open>normalize\<close> (lemma \<open>name_fields_name_en\<close>).
\<close>

definition foreign_fields :: "'f float_ops \<Rightarrow> 'f pydict \<Rightarrow> error + 'f pydict" where
  "foreign_fields fl nc =
     bind_err (dict_getitem nc (ustr ''foreign_checkpoint_ru'')) (\<lambda>fru.
       if truthy fl fru then
         bind_err (cyrillic_to_latin_value fru) (\<lambda>foreign_name.
           let nc = dict_set nc (ustr ''foreign_name'') (JStr foreign_name) in
           bind_err (dict_getitem nc (ustr ''name_en'')) (\<lambda>name_en.
             if truthy fl name_en \<and> truthy fl (JStr foreign_name) then
               (case name_en of
                  JStr n \<Rightarrow> Inr (dict_set nc (ustr ''name'') (JStr (n @ ustr '' / '' @ foreign_name)))
                | _ \<Rightarrow> Inl TypeError)
             else Inr nc))
       else Inr nc)"

text \<open>Lines 84 to 86: the key \<^verbatim>\<open>country\<close> is set when \<^verbatim>\<open>foreign_country\<close> is truthy.\<close>

definition country_field :: "'f float_ops \<Rightarrow> 'f json \<Rightarrow> 'f pydict \<Rightarrow> error + 'f pydict" where
  "country_field fl checkpoint nc =
     bind_err (py_get checkpoint (ustr ''foreign_country'') JNull) (\<lambda>other_country.
       if truthy fl other_country then
         bind_err (py_get other_country (ustr ''iso_code'') JNull) (\<lambda>iso_code.
           Inr (dict_set nc (ustr ''country'') iso_code))
       else Inr nc)"

text \<open>
  Lines 52 to 96, the body of the innermost loop: \<open>Inr (Some new_checkpoint)\<close> when the
  record is appended to \<^verbatim>\<open>processed_checkpoints\<close>, \<open>Inr None\<close> when it is not, \<open>Inl\<close> when
  an exception ends the script.
\<close>

definition normalize :: "'f float_ops \<Rightarrow> 'f json \<Rightarrow> error + 'f pydict option" where
  "normalize fl checkpoint =
     bind_err (get3 checkpoint (ustr ''checkpoint_type'') (ustr ''title'') (ustr ''en'')) (\<lambda>checkpoint_type_en.
     bind_err (get3 checkpoint (ustr ''status'') (ustr ''title'') (ustr ''en'')) (\<lambda>status_en.
     bind_err (get2 checkpoint (ustr ''title'') (ustr ''ru'')) (\<lambda>title_ru.
     if py_eq fl checkpoint_type_en (JStr (ustr ''Automobile checkpoint'')) then
       bind_err (name_fields fl title_ru) (\<lambda>nc.
       let nc = dict_set nc (ustr ''status'') (classify_status fl status_en) in
       bind_err (py_get checkpoint (ustr ''id'') JNull) (\<lambda>ident.
       let nc = dict_set nc (ustr ''id'') ident in
       bind_err (country_field fl checkpoint nc) (\<lambda>nc.
       bind_err (py_get checkpoint (ustr ''latitude'') JNull) (\<lambda>latitude.
       let nc = dict_set nc (ustr ''latitude'') latitude in
       bind_err (py_get checkpoint (ustr ''longitude'') JNull) (\<lambda>longitude.
       let nc = dict_set nc (ustr ''longitude'') longitude in
       bind_err (get2 checkpoint (ustr ''foreign_checkpoint'') (ustr ''ru'')) (\<lambda>fru.
       let nc = dict_set nc (ustr ''foreign_checkpoint_ru'') fru in
       bind_err (foreign_fields fl nc) (\<lambda>nc.
       bind_err (py_get checkpoint (ustr ''condition'') JNull) (\<lambda>condition.
       Inr (if py_eq fl condition (JBool True) then Some nc else None)))))))))
     else Inr None)))"

text \<open>Lines 45 to 96: the three nested loops, which append to \<^verbatim>\<open>processed_checkpoints\<close>.\<close>

fun process_checkpoints ::
  "'f float_ops \<Rightarrow> 'f pydict list \<Rightarrow> 'f json list \<Rightarrow> error + 'f pydict list" where
  "process_checkpoints fl acc [] = Inr acc"
| "process_checkpoints fl acc (checkpoint # rest) =
     bind_err (normalize fl checkpoint) (\<lambda>r.
       process_checkpoints fl (case r of Some nc \<Rightarrow> acc @ [nc] | None \<Rightarrow> acc) rest)"

fun process_regions ::
  "'f float_ops \<Rightarrow> 'f pydict list \<Rightarrow> 'f json list \<Rightarrow> error + 'f pydict list" where
  "process_regions fl acc [] = Inr acc"
| "process_regions fl acc (region # rest) =
     bind_err (py_get region (ustr ''checkpoints'') (JArr [])) (\<lambda>cs.
     bind_err (py_iter cs) (\<lambda>checkpoints.
     bind_err (process_checkpoints fl acc checkpoints) (\<lambda>acc.
       process_regions fl acc rest)))"

fun process_districts ::
  "'f float_ops \<Rightarrow> 'f json \<Rightarrow> 'f pydict list \<Rightarrow> 'f json list \<Rightarrow> error + 'f pydict list" where
  "process_districts fl data acc [] = Inr acc"
| "process_districts fl data acc (district_id # rest) =
     bind_err (py_getitem data (JStr (ustr ''federal_districts''))) (\<lambda>districts.
     bind_err (py_getitem districts district_id) (\<lambda>rs.
     bind_err (py_iter rs) (\<lambda>regions.
     bind_err (process_regions fl acc regions) (\<lambda>acc.
       process_districts fl data acc rest))))"

definition process_data :: "'f float_ops \<Rightarrow> 'f json \<Rightarrow> error + 'f pydict list" where
  "process_data fl data =
     bind_err (py_get data (ustr ''federal_districts'') (JObj [])) (\<lambda>districts.
     bind_err (py_iter districts) (\<lambda>district_ids.
       process_districts fl data [] district_ids))"

section \<open>extract-ru-borders.py: grouping\<close>

text \<open>
  \<^verbatim>\<open>region_map\<close> is a dict whose keys are values: the list of its items in insertion
  order. A key is found by \<^verbatim>\<open>==\<close>; a list or a dict as a key raises \<^verbatim>\<open>TypeError\<close>
  (unhashable).
\<close>

type_synonym 'f region_map = "('f json \<times> 'f pydict list) list"

fun hashable :: "'f json \<Rightarrow> bool" where
  "hashable (JArr xs) = False"
| "hashable (JObj kvs) = False"
| "hashable _ = True"

text \<open>\<^verbatim>\<open>cp.get('country', 'unknown')\<close>.\<close>

definition region_id_of :: "'f pydict \<Rightarrow> 'f json" where
  "region_id_of cp = (case map_of cp (ustr ''country'') of Some v \<Rightarrow> v | None \<Rightarrow> JStr (ustr ''unknown''))"

text \<open>Lines 102 to 104 for a hashable \<open>region_id\<close>.\<close>

fun bucket_append :: "'f float_ops \<Rightarrow> 'f json \<Rightarrow> 'f pydict \<Rightarrow> 'f region_map \<Rightarrow> 'f region_map" where
  "bucket_append fl region_id cp [] = [(region_id, [cp])]"
| "bucket_append fl region_id cp ((k, b) # region_map) =
     (if py_eq fl k region_id then (k, b @ [cp]) # region_map
      else (k, b) # bucket_append fl region_id cp region_map)"

fun group_by_country ::
  "'f float_ops \<Rightarrow> 'f region_map \<Rightarrow> 'f pydict list \<Rightarrow> error + 'f region_map" where
  "group_by_country fl region_map [] = Inr region_map"
| "group_by_country fl region_map (cp # rest) =
     (let region_id = region_id_of cp in
      if hashable region_id
      then group_by_country fl (bucket_append fl region_id cp region_map) rest
      else Inl TypeError)"

text \<open>
  The script: the per-region lists that are written to the files and the flat list
  that is printed.
\<close>

definition extract_ru_borders ::
  "'f float_ops \<Rightarrow> 'f json \<Rightarrow> error + ('f region_map \<times> 'f pydict list)" where
  "extract_ru_borders fl data =
     bind_err (process_data fl data) (\<lambda>processed_checkpoints.
     bind_err (group_by_country fl [] processed_checkpoints) (\<lambda>region_map.
       Inr (region_map, processed_checkpoints)))"

section \<open>transliterate\_geojson.py: the status of a description\<close>

text \<open>
  \<^verbatim>\<open>re.search(r'Status:\s*([^\n<]+)', description)\<close>, where \<^verbatim>\<open>Status\<close> stands for the
  Cyrillic word of the source (six letters, then the colon).

  \<open>capture\<close> is the group \<^verbatim>\<open>([^\n<]+)\<close>: the longest run of characters other than a
  newline and \<^verbatim>\<open><\<close>, which must not be empty. \<open>match_ws\<close> is \<^verbatim>\<open>\s*\<close> followed by the
  group: the greedy star takes a whitespace character and goes on; when the rest does not
  match from there, it gives the character back and the group starts at it.
  \<open>search_status\<close> tries every index from left to right and returns group 1 of the first
  match.
\<close>

definition status_marker :: ustring where
  "status_marker = [0x421, 0x442, 0x430, 0x442, 0x443, 0x441, 0x3A]"

definition capture :: "ustring \<Rightarrow> ustring option" where
  "capture s =
     (let g = takeWhile (\<lambda>c. c \<noteq> 0x0A \<and> c \<noteq> 0x3C) s in if g = [] then None else Some g)"

fun match_ws :: "ustring \<Rightarrow> ustring option" where
  "match_ws [] = capture []"
| "match_ws (c # cs) =
     (if is_space c
      then (case match_ws cs of Some g \<Rightarrow> Some g | None \<Rightarrow> capture (c # cs))
      else capture (c # cs))"

definition match_status_at :: "ustring \<Rightarrow> ustring option" where
  "match_status_at s =
     (if prefix status_marker s then match_ws (drop (length status_marker) s) else None)"

fun search_status :: "ustring \<Rightarrow> ustring option" where
  "search_status [] = match_status_at []"
| "search_status (x # xs) =
     (case match_status_at (x # xs) of Some g \<Rightarrow> Some g | None \<Rightarrow> search_status xs)"

text \<open>The four spellings that \<^verbatim>\<open>extract_status\<close> looks for.\<close>

definition Bilateral_ru :: ustring where
  "Bilateral_ru =
     [0x414, 0x432, 0x443, 0x445, 0x441, 0x442, 0x43E, 0x440, 0x43E, 0x43D, 0x43D, 0x438, 0x439]"

definition bilateral_ru :: ustring where
  "bilateral_ru =
     [0x434, 0x432, 0x443, 0x445, 0x441, 0x442, 0x43E, 0x440, 0x43E, 0x43D, 0x43D, 0x438, 0x439]"

definition Multilateral_ru :: ustring where
  "Multilateral_ru =
     [0x41C, 0x43D, 0x43E, 0x433, 0x43E, 0x441, 0x442, 0x43E, 0x440, 0x43E, 0x43D, 0x43D, 0x438,
      0x439]"

definition multilateral_ru :: ustring where
  "multilateral_ru =
     [0x43C, 0x43D, 0x43E, 0x433, 0x43E, 0x441, 0x442, 0x43E, 0x440, 0x43E, 0x43D, 0x43D, 0x438,
      0x439]"

text \<open>Lines 51 to 61, on the captured text.\<close>

definition status_of_text :: "ustring \<Rightarrow> 'f json" where
  "status_of_text g =
     (let status_text = py_strip g in
      if contains Bilateral_ru status_text \<or> contains bilateral_ru status_text then JInt 1
      else if contains Multilateral_ru status_text \<or> contains multilateral_ru status_text
        then JInt 2
      else JNull)"

fun extract_status :: "'f json \<Rightarrow> 'f json" where
  "extract_status (JStr description) =
     (case search_status description of
        Some g \<Rightarrow> status_of_text g
      | None \<Rightarrow> JNull)"
| "extract_status _ = JNull"

section \<open>json\_to\_geojson.py\<close>

text \<open>
  \<^verbatim>\<open>float(v)\<close>. A float is returned as it is; an integer is rounded, and CPython raises
  \<^verbatim>\<open>OverflowError\<close> when the rounded value is beyond the largest double, that is from
  \<open>2^1024 - 2^970\<close> on; a boolean is the integer 0 or 1; a string is parsed
  (\<^verbatim>\<open>ValueError\<close>); \<^verbatim>\<open>None\<close>, a list and a dict raise \<^verbatim>\<open>TypeError\<close>.
\<close>

definition int_overflows :: "int \<Rightarrow> bool" where
  "int_overflows n = (2 ^ 1024 - 2 ^ 970 \<le> \<bar>n\<bar>)"

fun py_float :: "'f float_ops \<Rightarrow> 'f json \<Rightarrow> error + 'f" where
  "py_float fl (JFloat x) = Inr x"
| "py_float fl (JInt n) = (if int_overflows n then Inl OverflowError else Inr (float_of_int fl n))"
| "py_float fl (JBool b) = Inr (float_of_int fl (if b then 1 else 0))"
| "py_float fl (JStr s) = (case float_of_str fl s of Some x \<Rightarrow> Inr x | None \<Rightarrow> Inl ValueError)"
| "py_float fl _ = Inl TypeError"

text \<open>Lines 59 and 60, the body of the \<^verbatim>\<open>try\<close>.\<close>

definition coordinates_of :: "'f float_ops \<Rightarrow> 'f json \<Rightarrow> error + ('f \<times> 'f)" where
  "coordinates_of fl item =
     bind_err (py_get item (ustr ''latitude'') (JInt 0)) (\<lambda>a.
     bind_err (py_float fl a) (\<lambda>lat.
     bind_err (py_get item (ustr ''longitude'') (JInt 0)) (\<lambda>b.
     bind_err (py_float fl b) (\<lambda>lon. Inr (lat, lon)))))"

text \<open>Lines 67 to 70: the loop over \<^verbatim>\<open>item.items()\<close>.\<close>

fun copy_properties :: "'f pydict \<Rightarrow> 'f pydict \<Rightarrow> 'f pydict" where
  "copy_properties properties [] = properties"
| "copy_properties properties ((key, v) # rest) =
     copy_properties
       (if key \<noteq> ustr ''latitude'' \<and> key \<noteq> ustr ''longitude''
        then dict_set properties key v else properties) rest"

text \<open>Lines 73 to 80.\<close>

definition feature_of :: "'f \<Rightarrow> 'f \<Rightarrow> 'f pydict \<Rightarrow> 'f json" where
  "feature_of lon lat properties =
     JObj [(ustr ''type'', JStr (ustr ''Feature'')),
           (ustr ''geometry'',
              JObj [(ustr ''type'', JStr (ustr ''Point'')),
                    (ustr ''coordinates'', JArr [JFloat lon, JFloat lat])]),
           (ustr ''properties'', JObj properties)]"

text \<open>
  Lines 56 to 82: the loop over \<^verbatim>\<open>data\<close>, with the list \<^verbatim>\<open>geojson["features"]\<close> and the
  counter \<^verbatim>\<open>skipped\<close>. The handler catches \<^verbatim>\<open>ValueError\<close> and \<^verbatim>\<open>TypeError\<close> only, and
  reads \<^verbatim>\<open>item.get('name', 'Unknown')\<close> for its message.
\<close>

fun convert_items ::
  "'f float_ops \<Rightarrow> 'f json list \<Rightarrow> nat \<Rightarrow> 'f json list \<Rightarrow> error + ('f json list \<times> nat)" where
  "convert_items fl features skipped [] = Inr (features, skipped)"
| "convert_items fl features skipped (item # rest) =
     (case coordinates_of fl item of
        Inl e \<Rightarrow>
          if e = ValueError \<or> e = TypeError
          then bind_err (py_get item (ustr ''name'') (JStr (ustr ''Unknown''))) (\<lambda>name.
                 convert_items fl features (skipped + 1) rest)
          else Inl e
      | Inr (lat, lon) \<Rightarrow>
          (case item of
             JObj kvs \<Rightarrow>
               convert_items fl (features @ [feature_of lon lat (copy_properties [] kvs)])
                 skipped rest
           | _ \<Rightarrow> Inl AttributeError))"

text \<open>
  Lines 42 to 82, from the loaded \<^verbatim>\<open>data\<close> to the document that is written and the
  number of skipped items; \<^verbatim>\<open>sys.exit(1)\<close> when \<^verbatim>\<open>data\<close> is not a list.
\<close>

definition json_to_geojson :: "'f float_ops \<Rightarrow> 'f json \<Rightarrow> error + ('f json \<times> nat)" where
  "json_to_geojson fl data =
     (case data of
        JArr items \<Rightarrow>
          bind_err (convert_items fl [] 0 items) (\<lambda>(features, skipped).
            Inr (JObj [(ustr ''type'', JStr (ustr ''FeatureCollection'')),
                       (ustr ''features'', JArr features)], skipped))
      | _ \<Rightarrow> Inl SystemExit)"

section \<open>A float type for the examples\<close>

text \<open>
  The concrete inputs below are evaluated with exact rational numbers for the floats:
  an integer is converted without rounding, and \<^verbatim>\<open>float\<close> of a string reads a decimal
  literal, an optional minus sign and digits with an optional fraction. On the numbers
  of the examples, which are doubles, this is what Python computes.
\<close>

definition is_digit :: "uchar \<Rightarrow> bool" where
  "is_digit c = (0x30 \<le> c \<and> c \<le> 0x39)"

definition digits_value :: "ustring \<Rightarrow> nat" where
  "digits_value ds = foldl (\<lambda>a c. 10 * a + (c - 0x30)) 0 ds"

definition parse_unsigned :: "ustring \<Rightarrow> rat option" where
  "parse_unsigned s =
     (let ip = takeWhile is_digit s in
      case dropWhile is_digit s of
        [] \<Rightarrow> if ip = [] then None else Some (of_nat (digits_value ip))
      | c # fp \<Rightarrow>
          if c = 0x2E \<and> list_all is_digit fp \<and> (ip \<noteq> [] \<or> fp \<noteq> [])
          then Some (of_nat (digits_value ip) + of_nat (digits_value fp) / 10 ^ length fp)
          else None)"

definition parse_decimal :: "ustring \<Rightarrow> rat option" where
  "parse_decimal s =
     (case s of
        [] \<Rightarrow> None
      | c # cs \<Rightarrow> if c = 0x2D then map_option uminus (parse_unsigned cs) else parse_unsigned s)"

definition rat_floats :: "rat float_ops" where
  "rat_floats =
     \<lparr>float_of_int = of_int, float_of_str = parse_decimal,
      float_eq_int = (\<lambda>x n. x = of_int n), float_eq = (\<lambda>x y. x = y)\<rparr>"

section \<open>Notions used in the statements\<close>

text \<open>
  The raw checkpoints of a document, in the order in which the three loops of
  extract-ru-borders.py visit them, and the records that a list of raw checkpoints
  contributes: those for which the loop body appends one.
\<close>

fun checkpoints_of_regions :: "'f json list \<Rightarrow> error + 'f json list" where
  "checkpoints_of_regions [] = Inr []"
| "checkpoints_of_regions (region # rest) =
     bind_err (py_get region (ustr ''checkpoints'') (JArr [])) (\<lambda>cs.
     bind_err (py_iter cs) (\<lambda>checkpoints.
     bind_err (checkpoints_of_regions rest) (\<lambda>more. Inr (checkpoints @ more))))"

fun checkpoints_of_districts :: "'f json \<Rightarrow> 'f json list \<Rightarrow> error + 'f json list" where
  "checkpoints_of_districts data [] = Inr []"
| "checkpoints_of_districts data (district_id # rest) =
     bind_err (py_getitem data (JStr (ustr ''federal_districts''))) (\<lambda>districts.
     bind_err (py_getitem districts district_id) (\<lambda>rs.
     bind_err (py_iter rs) (\<lambda>regions.
     bind_err (checkpoints_of_regions regions) (\<lambda>checkpoints.
     bind_err (checkpoints_of_districts data rest) (\<lambda>more. Inr (checkpoints @ more))))))"

definition raw_checkpoints :: "'f json \<Rightarrow> error + 'f json list" where
  "raw_checkpoints data =
     bind_err (py_get data (ustr ''federal_districts'') (JObj [])) (\<lambda>districts.
     bind_err (py_iter districts) (\<lambda>district_ids. checkpoints_of_districts data district_ids))"

definition admitted :: "'f float_ops \<Rightarrow> 'f json list \<Rightarrow> 'f pydict list" where
  "admitted fl cps =
     List.map_filter (\<lambda>cp. case normalize fl cp of Inr (Some nc) \<Rightarrow> Some nc | _ \<Rightarrow> None) cps"

text \<open>
  What lines 99 to 104 build from a list of records: the first record opens the first
  bucket, under its own \<open>region_id\<close>; that bucket holds it and then, in their order, the
  later records whose \<open>region_id\<close> the key equals; the remaining records make the other
  buckets in the same way. The second notion says that \<^verbatim>\<open>==\<close> is an equivalence on a set
  of keys, as it is on strings and null whatever the float operations are.
\<close>

fun grouped :: "'f float_ops \<Rightarrow> 'f region_map \<Rightarrow> 'f pydict list \<Rightarrow> bool" where
  "grouped fl [] ps = (ps = [])"
| "grouped fl ((k, b) # region_map) [] = False"
| "grouped fl ((k, b) # region_map) (p # rest) =
     (k = region_id_of p
      \<and> b = p # filter (\<lambda>nc. py_eq fl k (region_id_of nc)) rest
      \<and> grouped fl region_map (filter (\<lambda>nc. \<not> py_eq fl k (region_id_of nc)) rest))"

definition key_equivalence :: "'f float_ops \<Rightarrow> 'f json set \<Rightarrow> bool" where
  "key_equivalence fl S =
     ((\<forall>a \<in> S. py_eq fl a a)
      \<and> (\<forall>a \<in> S. \<forall>b \<in> S. py_eq fl a b \<longrightarrow> py_eq fl b a)
      \<and> (\<forall>a \<in> S. \<forall>b \<in> S. \<forall>c \<in> S. py_eq fl a b \<and> py_eq fl b c \<longrightarrow> py_eq fl a c))"

section \<open>Example inputs\<close>

text \<open>
  A document with one district and one region that holds the given checkpoints, and
  the value of the field \<^verbatim>\<open>checkpoint_type\<close> that passes the filter.
\<close>

definition document_of :: "'f json list \<Rightarrow> 'f json" where
  "document_of cps =
     JObj [(ustr ''federal_districts'',
            JObj [(ustr ''1'', JArr [JObj [(ustr ''checkpoints'', JArr cps)]])])]"

definition automobile :: "'f json" where
  "automobile = JObj [(ustr ''title'', JObj [(ustr ''en'', JStr (ustr ''Automobile checkpoint''))])]"

text \<open>
  The checkpoint of the end-to-end scenario of the specification: the title
  \<^verbatim>\<open>Zabaykalsk (avto)\<close> in Cyrillic, status Bilateral, condition true, foreign country CN and
  the foreign name \<^verbatim>\<open>Manchzhuriya\<close> in Cyrillic.
\<close>

definition Manchzhuriya_ru :: ustring where
  "Manchzhuriya_ru = [0x41C, 0x430, 0x43D, 0x44C, 0x447, 0x436, 0x443, 0x440, 0x438, 0x44F]"

definition Zabaykalsk_ru :: ustring where
  "Zabaykalsk_ru =
     [0x417, 0x430, 0x431, 0x430, 0x439, 0x43A, 0x430, 0x43B, 0x44C, 0x441, 0x43A, 0x20, 0x28,
      0x430, 0x432, 0x442, 0x43E, 0x29]"

definition scenario_checkpoint :: "rat json" where
  "scenario_checkpoint =
     JObj [(ustr ''title'', JObj [(ustr ''ru'', JStr Zabaykalsk_ru)]),
           (ustr ''checkpoint_type'', automobile),
           (ustr ''status'', JObj [(ustr ''title'', JObj [(ustr ''en'', JStr (ustr ''Bilateral''))])]),
           (ustr ''condition'', JBool True),
           (ustr ''foreign_country'', JObj [(ustr ''iso_code'', JStr (ustr ''CN''))]),
           (ustr ''foreign_checkpoint'', JObj [(ustr ''ru'', JStr Manchzhuriya_ru)])]"

definition scenario_record :: "rat pydict" where
  "scenario_record =
     [(ustr ''name_ru'', JStr Zabaykalsk_ru),
      (ustr ''full_name'', JStr (ustr ''Zabaykalsk (avto)'')),
      (ustr ''name_en'', JStr (ustr ''Zabaykalsk'')),
      (ustr ''name'', JStr (ustr ''Zabaykalsk / Manchzhuriya'')),
      (ustr ''status'', JInt 1),
      (ustr ''id'', JNull),
      (ustr ''country'', JStr (ustr ''CN'')),
      (ustr ''latitude'', JNull),
      (ustr ''longitude'', JNull),
      (ustr ''foreign_checkpoint_ru'', JStr Manchzhuriya_ru),
      (ustr ''foreign_name'', JStr (ustr ''Manchzhuriya''))]"

text \<open>
  An automobile checkpoint with condition true, no title and a foreign checkpoint name;
  the same without the foreign name; one whose condition is the number 1; and one whose
  foreign country has a null ISO code.
\<close>

definition untitled_foreign_checkpoint :: "rat json" where
  "untitled_foreign_checkpoint =
     JObj [(ustr ''checkpoint_type'', automobile),
           (ustr ''condition'', JBool True),
           (ustr ''foreign_checkpoint'', JObj [(ustr ''ru'', JStr Manchzhuriya_ru)])]"

definition untitled_checkpoint :: "rat json" where
  "untitled_checkpoint =
     JObj [(ustr ''checkpoint_type'', automobile), (ustr ''condition'', JBool True)]"

definition untitled_record :: "rat pydict" where
  "untitled_record =
     [(ustr ''name'', JNull), (ustr ''status'', JNull), (ustr ''id'', JNull),
      (ustr ''latitude'', JNull), (ustr ''longitude'', JNull),
      (ustr ''foreign_checkpoint_ru'', JNull)]"

definition condition_one_checkpoint :: "rat json" where
  "condition_one_checkpoint =
     JObj [(ustr ''checkpoint_type'', automobile), (ustr ''condition'', JInt 1)]"

definition null_iso_checkpoint :: "rat json" where
  "null_iso_checkpoint =
     JObj [(ustr ''checkpoint_type'', automobile),
           (ustr ''condition'', JBool True),
           (ustr ''foreign_country'', JObj [(ustr ''iso_code'', JNull)])]"

definition null_iso_record :: "rat pydict" where
  "null_iso_record =
     [(ustr ''name'', JNull), (ustr ''status'', JNull), (ustr ''id'', JNull),
      (ustr ''country'', JNull), (ustr ''latitude'', JNull), (ustr ''longitude'', JNull),
      (ustr ''foreign_checkpoint_ru'', JNull)]"

text \<open>The record of an automobile checkpoint without title whose foreign country is CN.\<close>

definition plain_CN_record :: "rat pydict" where
  "plain_CN_record =
     [(ustr ''name'', JNull), (ustr ''status'', JNull), (ustr ''id'', JNull),
      (ustr ''country'', JStr (ustr ''CN'')), (ustr ''latitude'', JNull),
      (ustr ''longitude'', JNull), (ustr ''foreign_checkpoint_ru'', JNull)]"

text \<open>
  The wording of the specification for \<^verbatim>\<open>name_en\<close>: only the first parenthesised group,
  with the whitespace around it, is removed.
\<close>

fun remove_first_group :: "ustring \<Rightarrow> ustring" where
  "remove_first_group [] = []"
| "remove_first_group (x # xs) =
     (case match_paren (x # xs) of Some rest \<Rightarrow> rest | None \<Rightarrow> x # remove_first_group xs)"

text \<open>The bilateral term in capital letters.\<close>

definition BILATERAL_ru :: ustring where
  "BILATERAL_ru =
     [0x414, 0x412, 0x423, 0x425, 0x421, 0x422, 0x41E, 0x420, 0x41E, 0x41D, 0x41D, 0x418, 0x419]"

section \<open>Properties of the transliteration engine\<close>

lemma prefix_append_drop: "prefix p s \<Longrightarrow> p @ drop (length p) s = s"
  by (auto simp: prefix_def)

lemma re_sub_initial_same_aux: "r = p \<Longrightarrow> re_sub_initial p r b s = s"
proof (induction p r b s rule: re_sub_initial.induct)
  case (1 p r at_start)
  show ?case by simp
next
  case (2 p r at_start x xs)
  then show ?case by (auto simp: prefix_append_drop)
qed

lemma re_sub_initial_same: "re_sub_initial p p b s = s"
  by (rule re_sub_initial_same_aux) simp

lemma mark_initial_flag: "xs = [] \<or> hd xs \<noteq> e \<Longrightarrow> mark_initial e r b xs = mark_initial e r b' xs"
  by (cases xs) auto

lemma re_sub_initial_mark_aux:
  "p = [e] \<Longrightarrow> \<not> is_space e \<Longrightarrow> re_sub_initial p r b s = mark_initial e r b s"
proof (induction p r b s rule: re_sub_initial.induct)
  case (1 p r at_start)
  show ?case by simp
next
  case (2 p r at_start x xs)
  show ?case
  proof (cases "at_start \<and> x = e")
    case True
    with 2 show ?thesis by simp
  next
    case False
    note F = False
    show ?thesis
    proof (cases "is_space x \<and> prefix [e] xs")
      case True
      then obtain zs where xs: "xs = e # zs" by (cases xs) auto
      with True F 2 show ?thesis by auto
    next
      case False
      then have "xs = [] \<or> hd xs \<noteq> e \<or> \<not> is_space x" by (cases xs) auto
      then have "mark_initial e r (is_space x) xs = mark_initial e r False xs"
        using mark_initial_flag [of xs e r "is_space x" False] by (cases "is_space x") auto
      with False F 2 show ?thesis by auto
    qed
  qed
qed

lemma re_sub_initial_mark:
  "\<not> is_space e \<Longrightarrow> re_sub_initial [e] r b s = mark_initial e r b s"
  by (rule re_sub_initial_mark_aux) simp_all

lemma mark_initial_append:
  "mark_initial e r b (s @ t) = mark_initial e r b s @ mark_initial e r (boundary b s) t"
  by (induction s arbitrary: b) (auto simp: boundary_def)

lemma mark_initial_Nil_iff: "r \<noteq> [] \<Longrightarrow> mark_initial e r b s = [] \<longleftrightarrow> s = []"
  by (cases s) auto

lemma mark_initial_last:
  "r \<noteq> [] \<Longrightarrow> is_space (last r) = is_space e \<Longrightarrow> s \<noteq> [] \<Longrightarrow>
     is_space (last (mark_initial e r b s)) = is_space (last s)"
  by (induction s arbitrary: b) (auto simp: mark_initial_Nil_iff)

lemma boundary_mark_initial:
  "r \<noteq> [] \<Longrightarrow> is_space (last r) = is_space e \<Longrightarrow>
     boundary b (mark_initial e r b' s) = boundary b s"
  by (simp add: boundary_def mark_initial_Nil_iff mark_initial_last)

lemma fix_initial_mark:
  "fix_initial b s = mark_initial 0x65 [0x79, 0x65] b (mark_initial 0x45 [0x59, 0x65] b s)"
proof -
  have "\<not> is_space 0x45" "\<not> is_space 0x65" by (simp_all add: is_space_def)
  then show ?thesis
    using re_sub_initial_mark [of "0x45"] re_sub_initial_mark [of "0x65"]
    by (simp add: fix_initial_def re_sub_initial_same ustr_def)
qed

lemma boundary_fix_initial: "boundary b (fix_initial b' s) = boundary b s"
  by (simp add: fix_initial_mark boundary_mark_initial is_space_def)

lemma fix_initial_append:
  "fix_initial b (s @ t) = fix_initial b s @ fix_initial (boundary b s) t"
  by (simp add: fix_initial_mark mark_initial_append boundary_mark_initial is_space_def)

lemma TRANS_MAP_items_values:
  "\<forall>(k, v) \<in> set TRANS_MAP_items. is_sign k \<or> (v \<noteq> [] \<and> \<not> is_space (of_char (last v)) \<and> \<not> is_space k)"
  by (simp add: TRANS_MAP_items_def is_sign_def is_space_def)

lemma trans_char_last:
  assumes "\<not> is_sign c"
  shows "trans_char c \<noteq> [] \<and> is_space (last (trans_char c)) = is_space c"
proof (cases "map_of TRANS_MAP_items c")
  case None
  then show ?thesis by (simp add: trans_char_def TRANS_MAP_def)
next
  case (Some v)
  then have "(c, v) \<in> set TRANS_MAP_items" by (rule map_of_SomeD)
  with TRANS_MAP_items_values assms
  have "v \<noteq> [] \<and> \<not> is_space (of_char (last v)) \<and> \<not> is_space c" by fastforce
  with Some show ?thesis
    by (simp add: trans_char_def TRANS_MAP_def ustr_def last_map)
qed

lemma boundary_trans:
  "\<forall>c \<in> set s. \<not> is_sign c \<Longrightarrow> boundary b (concat (map trans_char s)) = boundary b s"
proof (cases s rule: rev_cases)
  case Nil
  then show ?thesis by (simp add: boundary_def)
next
  case (snoc s' c)
  assume "\<forall>c \<in> set s. \<not> is_sign c"
  with snoc have "\<not> is_sign c" by simp
  from trans_char_last [OF this] snoc show ?thesis
    by (simp add: boundary_def)
qed

lemma strip_signs_filter: "strip_signs s = filter (\<lambda>c. \<not> is_sign c) s"
  by (induction s) (auto simp: strip_signs_def remove_char_def is_sign_def)

lemma cyrillic_to_latin_from_append:
  "cyrillic_to_latin_from b (xs @ ys) =
     cyrillic_to_latin_from b xs @ cyrillic_to_latin_from (boundary b (strip_signs xs)) ys"
proof -
  have "\<forall>c \<in> set (strip_signs xs). \<not> is_sign c" by (simp add: strip_signs_filter)
  from boundary_trans [OF this] show ?thesis
    by (simp add: cyrillic_to_latin_from_def strip_signs_filter fix_initial_append)
qed

lemma cyrillic_to_latin_from_True: "cyrillic_to_latin text = cyrillic_to_latin_from True text"
  by (simp add: cyrillic_to_latin_def cyrillic_to_latin_from_def)


lemma strip_signs_single: "\<not> is_sign c \<Longrightarrow> strip_signs [c] = [c]"
  by (simp add: strip_signs_filter)

lemma cyrillic_to_latin_from_char:
  assumes "\<not> is_sign c"
  shows "cyrillic_to_latin_from b (xs @ c # ys) =
     cyrillic_to_latin_from b xs @ cyrillic_to_latin_from (boundary b (strip_signs xs)) [c]
       @ cyrillic_to_latin_from (is_space c) ys"
proof -
  have "cyrillic_to_latin_from b (xs @ [c] @ ys) =
     cyrillic_to_latin_from b xs @ cyrillic_to_latin_from (boundary b (strip_signs xs)) ([c] @ ys)"
    by (rule cyrillic_to_latin_from_append)
  moreover have "cyrillic_to_latin_from b' ([c] @ ys) =
     cyrillic_to_latin_from b' [c] @ cyrillic_to_latin_from (is_space c) ys" for b'
    using assms cyrillic_to_latin_from_append [of b' "[c]" ys]
    by (simp add: strip_signs_single boundary_def)
  ultimately show ?thesis by simp
qed

lemma trans_char_unmapped: "TRANS_MAP c = None \<Longrightarrow> trans_char c = [c]"
  by (simp add: trans_char_def)

lemma TRANS_MAP_signs: "is_sign c \<Longrightarrow> TRANS_MAP c \<noteq> None"
  by (auto simp: is_sign_def TRANS_MAP_def TRANS_MAP_items_def)

lemma fix_initial_single:
  "fix_initial b [c] =
     (if b \<and> c = 0x45 then ustr ''Ye'' else if b \<and> c = 0x65 then ustr ''ye'' else [c])"
  by (simp add: fix_initial_mark ustr_def is_space_def)

lemma from_capital_E:
  "cyrillic_to_latin_from b [0x415] = (if b then ustr ''Ye'' else ustr ''E'')"
proof -
  have "trans_char 0x415 = [0x45]"
    by (simp add: trans_char_def TRANS_MAP_def TRANS_MAP_items_def ustr_def)
  moreover have "strip_signs [0x415] = [0x415]"
    by (simp add: strip_signs_filter is_sign_def)
  ultimately show ?thesis
    by (simp add: cyrillic_to_latin_from_def fix_initial_single ustr_def)
qed

lemma from_small_e:
  "cyrillic_to_latin_from b [0x435] = (if b then ustr ''ye'' else ustr ''e'')"
proof -
  have "trans_char 0x435 = [0x65]"
    by (simp add: trans_char_def TRANS_MAP_def TRANS_MAP_items_def ustr_def)
  moreover have "strip_signs [0x435] = [0x435]"
    by (simp add: strip_signs_filter is_sign_def)
  ultimately show ?thesis
    by (simp add: cyrillic_to_latin_from_def fix_initial_single ustr_def)
qed

lemma boundary_after_space:
  "xs = [] \<or> is_space (last xs) \<Longrightarrow> boundary True (strip_signs xs)"
proof (cases xs rule: rev_cases)
  case Nil
  then show ?thesis by (simp add: boundary_def strip_signs_filter)
next
  case (snoc zs w)
  assume "xs = [] \<or> is_space (last xs)"
  with snoc have w: "is_space w" by simp
  then have "\<not> is_sign w" by (auto simp: is_sign_def is_space_def)
  with snoc w show ?thesis by (simp add: boundary_def strip_signs_filter)
qed

lemma cyrillic_to_latin_Yekaterinburg:
  "cyrillic_to_latin
     [0x415, 0x43A, 0x430, 0x442, 0x435, 0x440, 0x438, 0x43D, 0x431, 0x443, 0x440, 0x433]
   = ustr ''Yekaterinburg''"
  by (simp add: cyrillic_to_latin_def strip_signs_def remove_char_def trans_char_def
      TRANS_MAP_def TRANS_MAP_items_def fix_initial_def ustr_def is_space_def)

lemma cyrillic_to_latin_Yelka:
  "cyrillic_to_latin
     [0x441, 0x43E, 0x431, 0x441, 0x442, 0x432, 0x435, 0x43D, 0x43D, 0x430, 0x44F, 0x20,
      0x415, 0x43B, 0x43A, 0x430]
   = ustr ''sobstvennaya Yelka''"
  by (simp add: cyrillic_to_latin_def strip_signs_def remove_char_def trans_char_def
      TRANS_MAP_def TRANS_MAP_items_def fix_initial_def ustr_def is_space_def)

lemma cyrillic_to_latin_Neftekamsk:
  "cyrillic_to_latin [0x41D, 0x435, 0x444, 0x442, 0x435, 0x43A, 0x430, 0x43C, 0x441, 0x43A]
   = ustr ''Neftekamsk''"
  by (simp add: cyrillic_to_latin_def strip_signs_def remove_char_def trans_char_def
      TRANS_MAP_def TRANS_MAP_items_def fix_initial_def ustr_def is_space_def)

subsection \<open>Claim C2: the letter IE at the start of a word\<close>

text \<open>
  Claim C2, as amended. In \<open>cyrillic_to_latin (xs @ c # ys)\<close> with \<open>c\<close> the Cyrillic
  capital IE (\<open>0x415\<close>) or small ie (\<open>0x435\<close>), the letter is rendered \<open>Ye\<close> or \<open>ye\<close> when
  the text before it, once its hard and soft signs are removed, is empty or ends in a
  whitespace character, and \<open>E\<close> or \<open>e\<close> otherwise; the rendering stands between the
  result for \<open>xs\<close> and the result for \<open>ys\<close> read as the continuation of a word. A letter
  at the start of the string or right after a whitespace character is such a letter.
  The three inputs of the claim give \<open>Yekaterinburg\<close>, \<open>sobstvennaya Yelka\<close> and
  \<open>Neftekamsk\<close>.
\<close>

theorem cyrillic_to_latin_E_rule:
  "cyrillic_to_latin (xs @ 0x415 # ys) =
     cyrillic_to_latin xs @ (if boundary True (strip_signs xs) then ustr ''Ye'' else ustr ''E'')
       @ cyrillic_to_latin_from False ys
   \<and> cyrillic_to_latin (xs @ 0x435 # ys) =
     cyrillic_to_latin xs @ (if boundary True (strip_signs xs) then ustr ''ye'' else ustr ''e'')
       @ cyrillic_to_latin_from False ys
   \<and> (xs = [] \<or> is_space (last xs) \<longrightarrow> boundary True (strip_signs xs))
   \<and> cyrillic_to_latin
       [0x415, 0x43A, 0x430, 0x442, 0x435, 0x440, 0x438, 0x43D, 0x431, 0x443, 0x440, 0x433]
     = ustr ''Yekaterinburg''
   \<and> cyrillic_to_latin
       [0x441, 0x43E, 0x431, 0x441, 0x442, 0x432, 0x435, 0x43D, 0x43D, 0x430, 0x44F, 0x20,
        0x415, 0x43B, 0x43A, 0x430]
     = ustr ''sobstvennaya Yelka''
   \<and> cyrillic_to_latin [0x41D, 0x435, 0x444, 0x442, 0x435, 0x43A, 0x430, 0x43C, 0x441, 0x43A]
     = ustr ''Neftekamsk''"
proof -
  have s: "\<not> is_sign 0x415" "\<not> is_sign 0x435" "\<not> is_space 0x415" "\<not> is_space 0x435"
    by (simp_all add: is_sign_def is_space_def)
  have "cyrillic_to_latin (xs @ 0x415 # ys) =
     cyrillic_to_latin xs @ (if boundary True (strip_signs xs) then ustr ''Ye'' else ustr ''E'')
       @ cyrillic_to_latin_from False ys"
    by (simp add: cyrillic_to_latin_from_True cyrillic_to_latin_from_char s from_capital_E)
  moreover have "cyrillic_to_latin (xs @ 0x435 # ys) =
     cyrillic_to_latin xs @ (if boundary True (strip_signs xs) then ustr ''ye'' else ustr ''e'')
       @ cyrillic_to_latin_from False ys"
    by (simp add: cyrillic_to_latin_from_True cyrillic_to_latin_from_char s from_small_e)
  moreover have "xs = [] \<or> is_space (last xs) \<longrightarrow> boundary True (strip_signs xs)"
    using boundary_after_space [of xs] by blast
  ultimately show ?thesis
    using cyrillic_to_latin_Yekaterinburg cyrillic_to_latin_Yelka cyrillic_to_latin_Neftekamsk
    by (intro conjI)
qed

theorem cyrillic_to_latin_E_rule_witness:
  "is_space (last (ustr ''a ''))
   \<and> boundary True (strip_signs (ustr ''a ''))
   \<and> cyrillic_to_latin (ustr ''a '' @ 0x415 # ustr ''b'') = ustr ''a Yeb''
   \<and> cyrillic_to_latin (ustr ''a'' @ 0x435 # ustr ''b'') = ustr ''aeb''"
proof -
  have sp: "is_space (last (ustr ''a ''))" by (simp add: ustr_def is_space_def)
  have a: "cyrillic_to_latin (ustr ''a '') = ustr ''a ''" "cyrillic_to_latin (ustr ''a'') = ustr ''a''"
    by (simp_all add: cyrillic_to_latin_def strip_signs_def remove_char_def trans_char_def
        TRANS_MAP_def TRANS_MAP_items_def fix_initial_def ustr_def is_space_def)
  have b: "cyrillic_to_latin_from False (ustr ''b'') = ustr ''b''"
    by (simp add: cyrillic_to_latin_from_def strip_signs_def remove_char_def trans_char_def
        TRANS_MAP_def TRANS_MAP_items_def fix_initial_def ustr_def is_space_def)
  have n: "\<not> boundary True (strip_signs (ustr ''a''))"
    by (simp add: boundary_def strip_signs_def remove_char_def ustr_def is_space_def)
  from cyrillic_to_latin_E_rule [of "ustr ''a ''" "ustr ''b''"] sp
  have 1: "boundary True (strip_signs (ustr ''a ''))"
    and 2: "cyrillic_to_latin (ustr ''a '' @ 0x415 # ustr ''b'') =
      cyrillic_to_latin (ustr ''a '') @ ustr ''Ye'' @ cyrillic_to_latin_from False (ustr ''b'')"
    by simp_all
  from cyrillic_to_latin_E_rule [of "ustr ''a''" "ustr ''b''"] n
  have 3: "cyrillic_to_latin (ustr ''a'' @ 0x435 # ustr ''b'') =
      cyrillic_to_latin (ustr ''a'') @ ustr ''e'' @ cyrillic_to_latin_from False (ustr ''b'')"
    by simp
  show ?thesis using sp 1 2 3 by (simp add: a b) (simp add: ustr_def)
qed

text \<open>
  The claim as it is stated fails: in the two-letter string of a small hard sign
  (\<open>0x44A\<close>) and a small ie, the ie is neither first nor after whitespace, and it is
  rendered \<open>ye\<close>, since the sign is removed before the corrections are applied.
\<close>

theorem cyrillic_to_latin_E_after_sign:
  "\<not> is_space 0x44A \<and> cyrillic_to_latin [0x44A, 0x435] = ustr ''ye''"
  by (simp add: cyrillic_to_latin_def strip_signs_def remove_char_def trans_char_def
      TRANS_MAP_def TRANS_MAP_items_def fix_initial_def ustr_def is_space_def)

subsection \<open>Claim C8: characters outside the table\<close>

text \<open>
  Claim C8, as amended. A character \<open>c\<close> that is no key of \<open>TRANS_MAP\<close> stands unchanged
  in the result of \<open>cyrillic_to_latin (xs @ c # ys)\<close>, between the result for \<open>xs\<close> and the
  result for \<open>ys\<close> read as a continuation, except a Latin \<open>E\<close> or \<open>e\<close> that starts the
  string or follows a whitespace character (hard and soft signs in between disregarded):
  it becomes \<open>Ye\<close> or \<open>ye\<close>.
\<close>

theorem cyrillic_to_latin_unmapped:
  assumes "TRANS_MAP c = None"
  shows "cyrillic_to_latin (xs @ c # ys) =
     cyrillic_to_latin xs
       @ (if boundary True (strip_signs xs) \<and> c = 0x45 then ustr ''Ye''
          else if boundary True (strip_signs xs) \<and> c = 0x65 then ustr ''ye'' else [c])
       @ cyrillic_to_latin_from (is_space c) ys"
proof -
  from assms have ns: "\<not> is_sign c" using TRANS_MAP_signs by blast
  then have "cyrillic_to_latin_from b [c] = fix_initial b [c]" for b
    using assms by (simp add: cyrillic_to_latin_from_def strip_signs_single trans_char_unmapped)
  with ns show ?thesis
    by (simp add: cyrillic_to_latin_from_True cyrillic_to_latin_from_char fix_initial_single)
qed

theorem cyrillic_to_latin_unmapped_witness:
  "TRANS_MAP 0x35 = None
   \<and> cyrillic_to_latin (ustr ''a'' @ 0x35 # ustr ''b'') = ustr ''a5b''"
proof -
  have t: "TRANS_MAP 0x35 = None" by (simp add: TRANS_MAP_def TRANS_MAP_items_def)
  have a: "cyrillic_to_latin (ustr ''a'') = ustr ''a''"
    by (simp add: cyrillic_to_latin_def strip_signs_def remove_char_def trans_char_def
        TRANS_MAP_def TRANS_MAP_items_def fix_initial_def ustr_def is_space_def)
  have b: "cyrillic_to_latin_from (is_space 0x35) (ustr ''b'') = ustr ''b''"
    by (simp add: cyrillic_to_latin_from_def strip_signs_def remove_char_def trans_char_def
        TRANS_MAP_def TRANS_MAP_items_def fix_initial_def ustr_def is_space_def)
  from cyrillic_to_latin_unmapped [OF t, of "ustr ''a''" "ustr ''b''"] t show ?thesis
    by (simp add: a b) (simp add: ustr_def)
qed

text \<open>
  The claim as it is stated fails: the Latin letter \<open>E\<close> is no key of the table, and
  \<^verbatim>\<open>Elk\<close> is returned as \<^verbatim>\<open>Yelk\<close>.
\<close>

theorem cyrillic_to_latin_Latin_E:
  "TRANS_MAP 0x45 = None \<and> cyrillic_to_latin (ustr ''Elk'') = ustr ''Yelk''"
  by (simp add: cyrillic_to_latin_def strip_signs_def remove_char_def trans_char_def
      TRANS_MAP_def TRANS_MAP_items_def fix_initial_def ustr_def is_space_def)

section \<open>Properties of the record normalizer and of the grouping\<close>

lemma bind_err_simps [simp]:
  "bind_err (Inl e) f = Inl e" "bind_err (Inr v) f = f v"
  by (simp_all add: bind_err_def)

lemma bind_err_Inr_iff: "bind_err m f = Inr y \<longleftrightarrow> (\<exists>v. m = Inr v \<and> f v = Inr y)"
  by (cases m) simp_all

lemma py_eq_JStr: "py_eq fl v (JStr s) \<longleftrightarrow> v = JStr s"
  by (cases v) auto

lemma admitted_Nil: "admitted fl [] = []"
  by (simp add: admitted_def map_filter_simps)

lemma admitted_Cons:
  "admitted fl (cp # cps) =
     (case normalize fl cp of Inr (Some nc) \<Rightarrow> [nc] | _ \<Rightarrow> []) @ admitted fl cps"
  by (simp add: admitted_def map_filter_simps split: sum.splits option.splits)

lemma admitted_append: "admitted fl (xs @ ys) = admitted fl xs @ admitted fl ys"
  by (induction xs) (simp_all add: admitted_Nil admitted_Cons)

lemma set_admitted:
  "nc \<in> set (admitted fl cps) \<longleftrightarrow> (\<exists>cp \<in> set cps. normalize fl cp = Inr (Some nc))"
  by (induction cps) (auto simp: admitted_Nil admitted_Cons split: sum.splits option.splits)

lemma process_checkpoints_admitted:
  "process_checkpoints fl acc cps = Inr out \<Longrightarrow> out = acc @ admitted fl cps"
proof (induction cps arbitrary: acc)
  case Nil
  then show ?case by (simp add: admitted_Nil)
next
  case (Cons cp cps)
  from Cons.prems obtain r where r: "normalize fl cp = Inr r"
    and rest: "process_checkpoints fl (case r of Some nc \<Rightarrow> acc @ [nc] | None \<Rightarrow> acc) cps = Inr out"
    by (auto simp: bind_err_Inr_iff)
  from Cons.IH [OF rest] r show ?case
    by (cases r) (simp_all add: admitted_Cons)
qed

lemma process_regions_admitted:
  "process_regions fl acc rs = Inr out \<Longrightarrow>
     \<exists>cps. checkpoints_of_regions rs = Inr cps \<and> out = acc @ admitted fl cps"
proof (induction rs arbitrary: acc)
  case Nil
  then show ?case by (simp add: admitted_Nil)
next
  case (Cons region rs)
  from Cons.prems obtain cs cps acc' where cs: "py_get region (ustr ''checkpoints'') (JArr []) = Inr cs"
    and it: "py_iter cs = Inr cps"
    and pc: "process_checkpoints fl acc cps = Inr acc'"
    and rest: "process_regions fl acc' rs = Inr out"
    by (auto simp: bind_err_Inr_iff)
  from Cons.IH [OF rest] obtain more where more: "checkpoints_of_regions rs = Inr more"
    and out: "out = acc' @ admitted fl more" by blast
  from process_checkpoints_admitted [OF pc] have "acc' = acc @ admitted fl cps" .
  with cs it more out show ?case by (simp add: admitted_append)
qed

lemma process_districts_admitted:
  "process_districts fl data acc ds = Inr out \<Longrightarrow>
     \<exists>cps. checkpoints_of_districts data ds = Inr cps \<and> out = acc @ admitted fl cps"
proof (induction ds arbitrary: acc)
  case Nil
  then show ?case by (simp add: admitted_Nil)
next
  case (Cons d ds)
  from Cons.prems obtain districts rs regions acc' where
        a: "py_getitem data (JStr (ustr ''federal_districts'')) = Inr districts"
    and b: "py_getitem districts d = Inr rs"
    and c: "py_iter rs = Inr regions"
    and pr: "process_regions fl acc regions = Inr acc'"
    and rest: "process_districts fl data acc' ds = Inr out"
    by (auto simp: bind_err_Inr_iff)
  from Cons.IH [OF rest] obtain more where more: "checkpoints_of_districts data ds = Inr more"
    and out: "out = acc' @ admitted fl more" by blast
  from process_regions_admitted [OF pr] obtain cps where
    cps: "checkpoints_of_regions regions = Inr cps" and acc': "acc' = acc @ admitted fl cps" by blast
  with a b c more out show ?case by (simp add: admitted_append)
qed

lemma process_data_admitted:
  "process_data fl data = Inr out \<Longrightarrow>
     \<exists>cps. raw_checkpoints data = Inr cps \<and> out = admitted fl cps"
  unfolding process_data_def raw_checkpoints_def
  by (auto simp: bind_err_Inr_iff dest: process_districts_admitted)

lemma mset_bucket_append:
  "mset (concat (map snd (bucket_append fl k cp rm))) = mset (concat (map snd rm)) + {#cp#}"
  by (induction rm) auto

lemma mset_group_by_country:
  "group_by_country fl rm ps = Inr rm' \<Longrightarrow>
     mset (concat (map snd rm')) = mset (concat (map snd rm)) + mset ps"
proof (induction ps arbitrary: rm)
  case Nil
  then show ?case by simp
next
  case (Cons cp ps)
  from Cons.prems have h: "hashable (region_id_of cp)"
    and rest: "group_by_country fl (bucket_append fl (region_id_of cp) cp rm) ps = Inr rm'"
    by (auto simp: Let_def split: if_splits)
  from Cons.IH [OF rest] show ?case by (simp add: mset_bucket_append)
qed

lemma bucket_append_cases:
  "(k', b') \<in> set (bucket_append fl k cp rm) \<Longrightarrow>
     (k', b') \<in> set rm
     \<or> (\<exists>b. (k', b) \<in> set rm \<and> b' = b @ [cp] \<and> py_eq fl k' k)
     \<or> (k' = k \<and> b' = [cp])"
  by (induction rm) (auto split: if_splits)

lemma group_by_country_buckets:
  "group_by_country fl rm ps = Inr rm' \<Longrightarrow> (k, b') \<in> set rm' \<Longrightarrow>
     \<exists>b new. ((k, b) \<in> set rm \<or> b = []) \<and> b' = b @ new \<and> subseq new ps
       \<and> (\<forall>nc \<in> set new. k = region_id_of nc \<or> py_eq fl k (region_id_of nc))"
proof (induction ps arbitrary: rm)
  case Nil
  then show ?case by auto
next
  case (Cons cp ps)
  let ?rm1 = "bucket_append fl (region_id_of cp) cp rm"
  from Cons.prems(1) have rest: "group_by_country fl ?rm1 ps = Inr rm'"
    by (auto simp: Let_def split: if_splits)
  from Cons.IH [OF rest Cons.prems(2)] obtain b new where
    b: "(k, b) \<in> set ?rm1 \<or> b = []" and b': "b' = b @ new" and sub: "subseq new ps"
    and keys: "\<forall>nc \<in> set new. k = region_id_of nc \<or> py_eq fl k (region_id_of nc)" by blast
  show ?case
  proof (cases "b = []")
    case True
    with b' sub keys have "((k, []) \<in> set rm \<or> [] = []) \<and> b' = [] @ new \<and> subseq new (cp # ps)
        \<and> (\<forall>nc \<in> set new. k = region_id_of nc \<or> py_eq fl k (region_id_of nc))"
      by (simp add: list_emb_Cons)
    then show ?thesis by blast
  next
    case False
    with b have "(k, b) \<in> set ?rm1" by simp
    from bucket_append_cases [OF this] consider
        "(k, b) \<in> set rm"
      | b0 where "(k, b0) \<in> set rm" "b = b0 @ [cp]" "py_eq fl k (region_id_of cp)"
      | "k = region_id_of cp" "b = [cp]" by blast
    then show ?thesis
    proof cases
      case 1
      with b' sub keys have "((k, b) \<in> set rm \<or> b = []) \<and> b' = b @ new \<and> subseq new (cp # ps)
          \<and> (\<forall>nc \<in> set new. k = region_id_of nc \<or> py_eq fl k (region_id_of nc))"
        by (simp add: list_emb_Cons)
      then show ?thesis by blast
    next
      case 2
      with b' sub keys have "((k, b0) \<in> set rm \<or> b0 = []) \<and> b' = b0 @ (cp # new)
          \<and> subseq (cp # new) (cp # ps)
          \<and> (\<forall>nc \<in> set (cp # new). k = region_id_of nc \<or> py_eq fl k (region_id_of nc))"
        by simp
      then show ?thesis by blast
    next
      case 3
      with b' sub keys have "((k, []) \<in> set rm \<or> [] = []) \<and> b' = [] @ (cp # new)
          \<and> subseq (cp # new) (cp # ps)
          \<and> (\<forall>nc \<in> set (cp # new). k = region_id_of nc \<or> py_eq fl k (region_id_of nc))"
        by simp
      then show ?thesis by blast
    qed
  qed
qed



lemma py_eq_JNull: "py_eq fl v JNull \<longleftrightarrow> v = JNull"
  by (cases v) auto

lemma py_eq_True:
  "py_eq fl v (JBool True) \<longleftrightarrow>
     v = JBool True \<or> v = JInt 1 \<or> (\<exists>x. v = JFloat x \<and> float_eq_int fl x 1)"
  by (cases v) auto

lemma normalize_Some_steps:
  assumes "normalize fl cp = Inr (Some nc)"
  shows "\<exists>st t nc0 ident nc1 lat lon fru c.
      get3 cp (ustr ''checkpoint_type'') (ustr ''title'') (ustr ''en'')
        = Inr (JStr (ustr ''Automobile checkpoint''))
    \<and> name_fields fl t = Inr nc0
    \<and> country_field fl cp (dict_set (dict_set nc0 (ustr ''status'') st) (ustr ''id'') ident) = Inr nc1
    \<and> foreign_fields fl
        (dict_set (dict_set (dict_set nc1 (ustr ''latitude'') lat) (ustr ''longitude'') lon)
           (ustr ''foreign_checkpoint_ru'') fru) = Inr nc
    \<and> py_get cp (ustr ''condition'') JNull = Inr c \<and> py_eq fl c (JBool True)"
proof -
  from assms obtain a st t where
        a: "get3 cp (ustr ''checkpoint_type'') (ustr ''title'') (ustr ''en'') = Inr a"
    and rest: "(if py_eq fl a (JStr (ustr ''Automobile checkpoint'')) then
       bind_err (name_fields fl t) (\<lambda>nc.
       let nc = dict_set nc (ustr ''status'') (classify_status fl st) in
       bind_err (py_get cp (ustr ''id'') JNull) (\<lambda>ident.
       let nc = dict_set nc (ustr ''id'') ident in
       bind_err (country_field fl cp nc) (\<lambda>nc.
       bind_err (py_get cp (ustr ''latitude'') JNull) (\<lambda>latitude.
       let nc = dict_set nc (ustr ''latitude'') latitude in
       bind_err (py_get cp (ustr ''longitude'') JNull) (\<lambda>longitude.
       let nc = dict_set nc (ustr ''longitude'') longitude in
       bind_err (get2 cp (ustr ''foreign_checkpoint'') (ustr ''ru'')) (\<lambda>fru.
       let nc = dict_set nc (ustr ''foreign_checkpoint_ru'') fru in
       bind_err (foreign_fields fl nc) (\<lambda>nc.
       bind_err (py_get cp (ustr ''condition'') JNull) (\<lambda>condition.
       Inr (if py_eq fl condition (JBool True) then Some nc else None)))))))))
     else Inr None) = Inr (Some nc)"
    unfolding normalize_def bind_err_Inr_iff by blast
  from rest have ty: "py_eq fl a (JStr (ustr ''Automobile checkpoint''))"
    by (cases "py_eq fl a (JStr (ustr ''Automobile checkpoint''))") simp_all
  then have a': "a = JStr (ustr ''Automobile checkpoint'')" by (cases a) auto
  from rest ty have "bind_err (name_fields fl t) (\<lambda>nc.
       let nc = dict_set nc (ustr ''status'') (classify_status fl st) in
       bind_err (py_get cp (ustr ''id'') JNull) (\<lambda>ident.
       let nc = dict_set nc (ustr ''id'') ident in
       bind_err (country_field fl cp nc) (\<lambda>nc.
       bind_err (py_get cp (ustr ''latitude'') JNull) (\<lambda>latitude.
       let nc = dict_set nc (ustr ''latitude'') latitude in
       bind_err (py_get cp (ustr ''longitude'') JNull) (\<lambda>longitude.
       let nc = dict_set nc (ustr ''longitude'') longitude in
       bind_err (get2 cp (ustr ''foreign_checkpoint'') (ustr ''ru'')) (\<lambda>fru.
       let nc = dict_set nc (ustr ''foreign_checkpoint_ru'') fru in
       bind_err (foreign_fields fl nc) (\<lambda>nc.
       bind_err (py_get cp (ustr ''condition'') JNull) (\<lambda>condition.
       Inr (if py_eq fl condition (JBool True) then Some nc else None))))))))) = Inr (Some nc)"
    by (simp only: if_True)
  then obtain nc0 ident nc1 lat lon fru nc2 c where
        "name_fields fl t = Inr nc0"
    and "country_field fl cp (dict_set (dict_set nc0 (ustr ''status'') (classify_status fl st))
           (ustr ''id'') ident) = Inr nc1"
    and "foreign_fields fl
        (dict_set (dict_set (dict_set nc1 (ustr ''latitude'') lat) (ustr ''longitude'') lon)
           (ustr ''foreign_checkpoint_ru'') fru) = Inr nc2"
    and "py_get cp (ustr ''condition'') JNull = Inr c"
    and "(if py_eq fl c (JBool True) then Some nc2 else None) = Some nc"
    unfolding Let_def bind_err_Inr_iff sum.inject by blast
  moreover from this have "py_eq fl c (JBool True) \<and> nc2 = nc"
    by (cases "py_eq fl c (JBool True)") simp_all
  ultimately show ?thesis using a a' by blast
qed


lemma normalize_Some:
  assumes "normalize fl cp = Inr (Some nc)"
  shows "get3 cp (ustr ''checkpoint_type'') (ustr ''title'') (ustr ''en'')
      = Inr (JStr (ustr ''Automobile checkpoint''))
    \<and> (\<exists>c. py_get cp (ustr ''condition'') JNull = Inr c \<and> py_eq fl c (JBool True))"
  using normalize_Some_steps [OF assms] by blast

lemma map_of_dict_set:
  "map_of (dict_set d k v) k' = (if k' = k then Some v else map_of d k')"
  by (induction d) auto

lemma key_neq:
  "ustr ''country'' \<noteq> ustr ''name_ru''" "ustr ''country'' \<noteq> ustr ''full_name''"
  "ustr ''country'' \<noteq> ustr ''name_en''" "ustr ''country'' \<noteq> ustr ''name''"
  "ustr ''country'' \<noteq> ustr ''status''" "ustr ''country'' \<noteq> ustr ''id''"
  "ustr ''country'' \<noteq> ustr ''latitude''" "ustr ''country'' \<noteq> ustr ''longitude''"
  "ustr ''country'' \<noteq> ustr ''foreign_checkpoint_ru''" "ustr ''country'' \<noteq> ustr ''foreign_name''"
  by (simp_all add: ustr_def)

lemma name_fields_country:
  assumes "name_fields fl t = Inr nc"
  shows "map_of nc (ustr ''country'') = None"
proof (cases "truthy fl t")
  case True
  with assms obtain full_name where
    "nc = dict_set (dict_set (dict_set (dict_set [] (ustr ''name_ru'') t)
            (ustr ''full_name'') (JStr full_name))
          (ustr ''name_en'') (JStr (name_en_of full_name)))
        (ustr ''name'') (JStr (name_en_of full_name))"
    unfolding name_fields_def Let_def by (auto simp: bind_err_Inr_iff)
  then show ?thesis by (simp only: map_of_dict_set key_neq if_False map_of.simps)
next
  case False
  with assms have "nc = dict_set [] (ustr ''name'') JNull"
    unfolding name_fields_def by simp
  then show ?thesis by (simp only: map_of_dict_set key_neq if_False map_of.simps)
qed

lemma name_fields_name_en:
  assumes "name_fields fl t = Inr nc"
  shows "map_of nc (ustr ''name_en'') = None \<or> (\<exists>s. map_of nc (ustr ''name_en'') = Some (JStr s))"
proof (cases "truthy fl t")
  case True
  with assms obtain full_name where
    "nc = dict_set (dict_set (dict_set (dict_set [] (ustr ''name_ru'') t)
            (ustr ''full_name'') (JStr full_name))
          (ustr ''name_en'') (JStr (name_en_of full_name)))
        (ustr ''name'') (JStr (name_en_of full_name))"
    unfolding name_fields_def Let_def by (auto simp: bind_err_Inr_iff)
  then show ?thesis by (simp add: ustr_def)
next
  case False
  with assms have "nc = dict_set [] (ustr ''name'') JNull"
    unfolding name_fields_def by simp
  then show ?thesis by (simp add: ustr_def)
qed

lemma foreign_fields_country:
  assumes "foreign_fields fl nc = Inr nc'"
  shows "map_of nc' (ustr ''country'') = map_of nc (ustr ''country'')"
proof -
  from assms obtain fru where fru: "dict_getitem nc (ustr ''foreign_checkpoint_ru'') = Inr fru"
    and rest: "(if truthy fl fru then
         bind_err (cyrillic_to_latin_value fru) (\<lambda>foreign_name.
           let nc = dict_set nc (ustr ''foreign_name'') (JStr foreign_name) in
           bind_err (dict_getitem nc (ustr ''name_en'')) (\<lambda>name_en.
             if truthy fl name_en \<and> truthy fl (JStr foreign_name) then
               (case name_en of
                  JStr n \<Rightarrow> Inr (dict_set nc (ustr ''name'') (JStr (n @ ustr '' / '' @ foreign_name)))
                | _ \<Rightarrow> Inl TypeError)
             else Inr nc))
       else Inr nc) = Inr nc'"
    unfolding foreign_fields_def bind_err_Inr_iff by blast
  show ?thesis
  proof (cases "truthy fl fru")
    case False
    with rest show ?thesis by simp
  next
    case True
    with rest obtain foreign_name name_en where
      r2: "(if truthy fl name_en \<and> truthy fl (JStr foreign_name) then
               (case name_en of
                  JStr n \<Rightarrow> Inr (dict_set (dict_set nc (ustr ''foreign_name'') (JStr foreign_name))
                     (ustr ''name'') (JStr (n @ ustr '' / '' @ foreign_name)))
                | _ \<Rightarrow> Inl TypeError)
             else Inr (dict_set nc (ustr ''foreign_name'') (JStr foreign_name))) = Inr nc'"
      unfolding Let_def by (auto simp: bind_err_Inr_iff)
    show ?thesis
    proof (cases "truthy fl name_en \<and> truthy fl (JStr foreign_name)")
      case False
      with r2 have "nc' = dict_set nc (ustr ''foreign_name'') (JStr foreign_name)" by auto
      then show ?thesis by (simp only: map_of_dict_set key_neq if_False)
    next
      case True
      with r2 obtain n where "nc' = dict_set (dict_set nc (ustr ''foreign_name'') (JStr foreign_name))
                     (ustr ''name'') (JStr (n @ ustr '' / '' @ foreign_name))"
        by (cases name_en) auto
      then show ?thesis by (simp only: map_of_dict_set key_neq if_False)
    qed
  qed
qed

lemma country_field_country:
  assumes "country_field fl cp nc = Inr nc'"
  shows "\<exists>fc. py_get cp (ustr ''foreign_country'') JNull = Inr fc
    \<and> (if truthy fl fc
       then \<exists>iso. py_get fc (ustr ''iso_code'') JNull = Inr iso
              \<and> map_of nc' (ustr ''country'') = Some iso
       else nc' = nc)"
proof -
  from assms obtain fc where fc: "py_get cp (ustr ''foreign_country'') JNull = Inr fc"
    and rest: "(if truthy fl fc then
         bind_err (py_get fc (ustr ''iso_code'') JNull) (\<lambda>iso_code.
           Inr (dict_set nc (ustr ''country'') iso_code))
       else Inr nc) = Inr nc'"
    unfolding country_field_def bind_err_Inr_iff by blast
  show ?thesis
  proof (cases "truthy fl fc")
    case True
    with rest obtain iso where "py_get fc (ustr ''iso_code'') JNull = Inr iso"
      and "nc' = dict_set nc (ustr ''country'') iso"
      by (auto simp: bind_err_Inr_iff)
    with True fc show ?thesis by (simp add: map_of_dict_set)
  next
    case False
    with rest fc show ?thesis by simp
  qed
qed

lemma normalize_country:
  assumes "normalize fl cp = Inr (Some nc)"
  shows "\<exists>fc. py_get cp (ustr ''foreign_country'') JNull = Inr fc
    \<and> (if truthy fl fc
       then \<exists>iso. py_get fc (ustr ''iso_code'') JNull = Inr iso
              \<and> map_of nc (ustr ''country'') = Some iso
       else map_of nc (ustr ''country'') = None)"
proof -
  from normalize_Some_steps [OF assms] obtain st t nc0 ident nc1 lat lon fru where
        nf: "name_fields fl t = Inr nc0"
    and cf: "country_field fl cp (dict_set (dict_set nc0 (ustr ''status'') st) (ustr ''id'') ident)
              = Inr nc1"
    and ff: "foreign_fields fl
        (dict_set (dict_set (dict_set nc1 (ustr ''latitude'') lat) (ustr ''longitude'') lon)
           (ustr ''foreign_checkpoint_ru'') fru) = Inr nc"
    by blast
  have c0: "map_of (dict_set (dict_set nc0 (ustr ''status'') st) (ustr ''id'') ident)
      (ustr ''country'') = None"
    using name_fields_country [OF nf] by (simp only: map_of_dict_set key_neq if_False)
  have c: "map_of nc (ustr ''country'') = map_of nc1 (ustr ''country'')"
    using foreign_fields_country [OF ff] by (simp only: map_of_dict_set key_neq if_False)
  from country_field_country [OF cf] obtain fc where
    fc: "py_get cp (ustr ''foreign_country'') JNull = Inr fc"
    and r: "if truthy fl fc
       then \<exists>iso. py_get fc (ustr ''iso_code'') JNull = Inr iso
              \<and> map_of nc1 (ustr ''country'') = Some iso
       else nc1 = dict_set (dict_set nc0 (ustr ''status'') st) (ustr ''id'') ident"
    by blast
  show ?thesis
  proof (cases "truthy fl fc")
    case True
    with r fc c show ?thesis by auto
  next
    case False
    with r have "nc1 = dict_set (dict_set nc0 (ustr ''status'') st) (ustr ''id'') ident" by simp
    with c0 c False fc show ?thesis by simp
  qed
qed

lemmas string_eval = ustr_def is_space_def py_strip_def remove_char_def

lemmas translit_eval = cyrillic_to_latin_def strip_signs_def trans_char_def TRANS_MAP_def
  TRANS_MAP_items_def fix_initial_def

lemma ustr_eq_iff [simp]: "ustr a = ustr b \<longleftrightarrow> a = b"
  unfolding ustr_def by (simp add: inj_map_eq_map inj_of_char)

lemma ustr_Nil_iff [simp]: "ustr a = [] \<longleftrightarrow> a = []"
  by (simp add: ustr_def)

lemma cyrillic_to_latin_Zabaykalsk:
  "cyrillic_to_latin Zabaykalsk_ru = ustr ''Zabaykalsk (avto)''"
  by (simp add: Zabaykalsk_ru_def translit_eval string_eval)

lemma cyrillic_to_latin_Manchzhuriya:
  "cyrillic_to_latin Manchzhuriya_ru = ustr ''Manchzhuriya''"
  by (simp add: Manchzhuriya_ru_def translit_eval string_eval)

lemma name_en_of_Zabaykalsk: "name_en_of (ustr ''Zabaykalsk (avto)'') = ustr ''Zabaykalsk''"
  by (simp add: name_en_of_def match_paren_def string_eval)

lemma ru_nonempty: "Zabaykalsk_ru \<noteq> []" "Manchzhuriya_ru \<noteq> []"
  by (simp_all add: Zabaykalsk_ru_def Manchzhuriya_ru_def)

lemma ustr_append: "ustr a @ ustr b = ustr (a @ b)"
  by (simp add: ustr_def)

lemmas normalize_eval = normalize_def get3_def get2_def name_fields_def
  classify_status_def foreign_fields_def country_field_def dict_getitem_def rat_floats_def
  automobile_def ru_nonempty ustr_append

lemma normalize_untitled: "normalize rat_floats untitled_checkpoint = Inr (Some untitled_record)"
  by (simp add: untitled_checkpoint_def untitled_record_def normalize_eval)


lemma normalize_scenario: "normalize rat_floats scenario_checkpoint = Inr (Some scenario_record)"
  by (simp add: scenario_checkpoint_def scenario_record_def normalize_eval
      cyrillic_to_latin_Zabaykalsk cyrillic_to_latin_Manchzhuriya name_en_of_Zabaykalsk)

lemma normalize_untitled_foreign: "normalize rat_floats untitled_foreign_checkpoint = Inl KeyError"
  by (simp add: untitled_foreign_checkpoint_def normalize_eval cyrillic_to_latin_Manchzhuriya)

lemma normalize_condition_one:
  "normalize rat_floats condition_one_checkpoint = Inr (Some untitled_record)"
  by (simp add: condition_one_checkpoint_def untitled_record_def normalize_eval)

lemma normalize_null_iso: "normalize rat_floats null_iso_checkpoint = Inr (Some null_iso_record)"
  by (simp add: null_iso_checkpoint_def null_iso_record_def normalize_eval)

lemma extract_single:
  "normalize fl cp = Inr (Some nc) \<Longrightarrow> hashable (region_id_of nc) \<Longrightarrow>
     extract_ru_borders fl (document_of [cp]) = Inr ([(region_id_of nc, [nc])], [nc])"
  by (simp add: extract_ru_borders_def process_data_def document_of_def)

lemma extract_scenario:
  "extract_ru_borders rat_floats (document_of [scenario_checkpoint])
     = Inr ([(JStr (ustr ''CN''), [scenario_record])], [scenario_record])"
proof -
  have "region_id_of scenario_record = JStr (ustr ''CN'')"
    by (simp add: region_id_of_def scenario_record_def)
  with extract_single [OF normalize_scenario] show ?thesis by simp
qed

lemma extract_condition_one:
  "extract_ru_borders rat_floats (document_of [condition_one_checkpoint])
     = Inr ([(JStr (ustr ''unknown''), [untitled_record])], [untitled_record])"
proof -
  have "region_id_of untitled_record = JStr (ustr ''unknown'')"
    by (simp add: region_id_of_def untitled_record_def)
  with extract_single [OF normalize_condition_one] show ?thesis by simp
qed

lemma extract_null_iso:
  "extract_ru_borders rat_floats (document_of [null_iso_checkpoint])
     = Inr ([(JNull, [null_iso_record])], [null_iso_record])"
proof -
  have "region_id_of null_iso_record = JNull"
    by (simp add: region_id_of_def null_iso_record_def)
  with extract_single [OF normalize_null_iso] show ?thesis by simp
qed

lemma extract_ru_borders_Inr:
  assumes "extract_ru_borders fl data = Inr (region_map, processed)"
  shows "process_data fl data = Inr processed"
    and "group_by_country fl [] processed = Inr region_map"
  using assms unfolding extract_ru_borders_def by (auto simp: bind_err_Inr_iff)

lemma bucket_records:
  assumes "group_by_country fl [] processed = Inr region_map"
  shows "(\<exists>k b. (k, b) \<in> set region_map \<and> nc \<in> set b) \<longleftrightarrow> nc \<in> set processed"
proof -
  from mset_group_by_country [OF assms]
  have "set_mset (mset (concat (map snd region_map))) = set_mset (mset processed)" by simp
  then have "(\<Union>x\<in>set region_map. set (snd x)) = set processed" by simp
  then show ?thesis by force
qed

subsection \<open>Claim C1: what reaches the output\<close>

text \<open>
  Claim C1, as amended. When the script ends without an exception, the flat list is the
  list of the records that the raw checkpoints of the document contribute, in their
  order, and every record of the flat list or of a per-country list comes from a raw
  checkpoint whose \<^verbatim>\<open>checkpoint_type.title.en\<close> is the string \<^verbatim>\<open>Automobile checkpoint\<close> and
  whose \<^verbatim>\<open>condition\<close> compares equal to \<^verbatim>\<open>True\<close>: it is true, or the number 1. A raw
  checkpoint that fails either test contributes no record.
\<close>

theorem extract_admission:
  assumes "extract_ru_borders fl data = Inr (region_map, processed)"
  shows "\<exists>cps. raw_checkpoints data = Inr cps \<and> processed = admitted fl cps
     \<and> (\<forall>nc. nc \<in> set processed \<or> (\<exists>k b. (k, b) \<in> set region_map \<and> nc \<in> set b) \<longrightarrow>
          (\<exists>cp \<in> set cps. normalize fl cp = Inr (Some nc)
             \<and> get3 cp (ustr ''checkpoint_type'') (ustr ''title'') (ustr ''en'')
                 = Inr (JStr (ustr ''Automobile checkpoint''))
             \<and> (\<exists>c. py_get cp (ustr ''condition'') JNull = Inr c
                  \<and> (c = JBool True \<or> c = JInt 1 \<or> (\<exists>x. c = JFloat x \<and> float_eq_int fl x 1)))))
     \<and> (\<forall>cp \<in> set cps.
          get3 cp (ustr ''checkpoint_type'') (ustr ''title'') (ustr ''en'')
              \<noteq> Inr (JStr (ustr ''Automobile checkpoint''))
          \<or> (\<forall>c. py_get cp (ustr ''condition'') JNull = Inr c \<longrightarrow> \<not> py_eq fl c (JBool True))
          \<longrightarrow> (\<forall>nc. normalize fl cp \<noteq> Inr (Some nc)))"
proof -
  note r = extract_ru_borders_Inr [OF assms]
  from process_data_admitted [OF r(1)] obtain cps where
    cps: "raw_checkpoints data = Inr cps" and p: "processed = admitted fl cps" by blast
  have 1: "\<exists>cp \<in> set cps. normalize fl cp = Inr (Some nc)
             \<and> get3 cp (ustr ''checkpoint_type'') (ustr ''title'') (ustr ''en'')
                 = Inr (JStr (ustr ''Automobile checkpoint''))
             \<and> (\<exists>c. py_get cp (ustr ''condition'') JNull = Inr c
                  \<and> (c = JBool True \<or> c = JInt 1 \<or> (\<exists>x. c = JFloat x \<and> float_eq_int fl x 1)))"
    if "nc \<in> set processed \<or> (\<exists>k b. (k, b) \<in> set region_map \<and> nc \<in> set b)" for nc
  proof -
    from that bucket_records [OF r(2)] have "nc \<in> set processed" by blast
    with p obtain cp where cp: "cp \<in> set cps" "normalize fl cp = Inr (Some nc)"
      by (auto simp: set_admitted)
    from normalize_Some [OF cp(2)] cp show ?thesis
      by (auto simp: py_eq_True)
  qed
  have 2: "\<forall>nc. normalize fl cp \<noteq> Inr (Some nc)"
    if "get3 cp (ustr ''checkpoint_type'') (ustr ''title'') (ustr ''en'')
              \<noteq> Inr (JStr (ustr ''Automobile checkpoint''))
          \<or> (\<forall>c. py_get cp (ustr ''condition'') JNull = Inr c \<longrightarrow> \<not> py_eq fl c (JBool True))" for cp
    using that normalize_Some [of fl cp] by blast
  from cps p 1 2 show ?thesis by blast
qed

theorem extract_admission_witness:
  "extract_ru_borders rat_floats (document_of [scenario_checkpoint])
     = Inr ([(JStr (ustr ''CN''), [scenario_record])], [scenario_record])
   \<and> (\<exists>cps. raw_checkpoints (document_of [scenario_checkpoint]) = Inr cps
        \<and> [scenario_record] = admitted rat_floats cps)"
  using extract_admission [OF extract_scenario] extract_scenario by blast

text \<open>
  The claim as it is stated fails: \<^verbatim>\<open>condition == True\<close> also holds for the number 1, so a
  checkpoint whose \<^verbatim>\<open>condition\<close> is \<open>1\<close>, not \<^verbatim>\<open>true\<close>, reaches both outputs.
\<close>

theorem extract_condition_number_one:
  "py_get condition_one_checkpoint (ustr ''condition'') JNull = Inr (JInt 1)
   \<and> extract_ru_borders rat_floats (document_of [condition_one_checkpoint])
     = Inr ([(JStr (ustr ''unknown''), [untitled_record])], [untitled_record])"
  using extract_condition_one by (simp add: condition_one_checkpoint_def)

subsection \<open>Grouping by country\<close>

text \<open>
  When the grouping ends without an exception, the buckets together hold exactly the
  records, each once; every bucket lists its records in the order of normalization, under
  a key equal to their \<open>region_id\<close>; a record with no \<^verbatim>\<open>country\<close> field is in the bucket of the
  string \<^verbatim>\<open>unknown\<close>, and a record whose \<^verbatim>\<open>country\<close> is null is in the bucket of the key
  null. A record has no \<^verbatim>\<open>country\<close> field when the \<^verbatim>\<open>foreign_country\<close> of its checkpoint is
  absent or falsy; otherwise its \<^verbatim>\<open>country\<close> is the \<^verbatim>\<open>iso_code\<close> of the foreign country, null
  when that is absent or null.
\<close>

theorem grouping_partition:
  assumes "group_by_country fl [] processed = Inr region_map"
  shows "mset (concat (map snd region_map)) = mset processed
     \<and> (\<forall>(k, b) \<in> set region_map. subseq b processed
          \<and> (\<forall>nc \<in> set b. k = region_id_of nc \<or> py_eq fl k (region_id_of nc)))
     \<and> (\<forall>nc \<in> set processed. map_of nc (ustr ''country'') = None \<longrightarrow>
          (\<exists>b. (JStr (ustr ''unknown''), b) \<in> set region_map \<and> nc \<in> set b))
     \<and> (\<forall>nc \<in> set processed. map_of nc (ustr ''country'') = Some JNull \<longrightarrow>
          (\<exists>b. (JNull, b) \<in> set region_map \<and> nc \<in> set b))
     \<and> (normalize fl cp = Inr (Some nc) \<longrightarrow>
          (\<exists>fc. py_get cp (ustr ''foreign_country'') JNull = Inr fc
            \<and> (if truthy fl fc
               then \<exists>iso. py_get fc (ustr ''iso_code'') JNull = Inr iso
                      \<and> map_of nc (ustr ''country'') = Some iso
               else map_of nc (ustr ''country'') = None)))"
proof -
  have m: "mset (concat (map snd region_map)) = mset processed"
    using mset_group_by_country [OF assms] by simp
  have b: "subseq b processed \<and> (\<forall>nc \<in> set b. k = region_id_of nc \<or> py_eq fl k (region_id_of nc))"
    if "(k, b) \<in> set region_map" for k b
    using group_by_country_buckets [OF assms that] by auto
  have k: "\<exists>b. (region_id_of nc, b) \<in> set region_map \<and> nc \<in> set b"
    if nc: "nc \<in> set processed" and r: "region_id_of nc = JNull \<or> (\<exists>s. region_id_of nc = JStr s)" for nc
  proof -
    from nc bucket_records [OF assms] obtain k b where kb: "(k, b) \<in> set region_map" "nc \<in> set b"
      by blast
    with b have "k = region_id_of nc \<or> py_eq fl k (region_id_of nc)" by blast
    with r have "k = region_id_of nc" by (auto simp: py_eq_JNull py_eq_JStr)
    with kb show ?thesis by blast
  qed
  have u: "\<exists>b. (JStr (ustr ''unknown''), b) \<in> set region_map \<and> nc \<in> set b"
    if "nc \<in> set processed" "map_of nc (ustr ''country'') = None" for nc
    using k [of nc] that by (simp add: region_id_of_def)
  have n: "\<exists>b. (JNull, b) \<in> set region_map \<and> nc \<in> set b"
    if "nc \<in> set processed" "map_of nc (ustr ''country'') = Some JNull" for nc
    using k [of nc] that by (simp add: region_id_of_def)
  from m b u n normalize_country [of fl cp nc] show ?thesis by blast
qed

lemma group_two:
  "group_by_country rat_floats [] [scenario_record, untitled_record]
     = Inr [(JStr (ustr ''CN''), [scenario_record]), (JStr (ustr ''unknown''), [untitled_record])]"
proof -
  have "region_id_of scenario_record = JStr (ustr ''CN'')"
    "region_id_of untitled_record = JStr (ustr ''unknown'')"
    by (simp_all add: region_id_of_def scenario_record_def untitled_record_def)
  then show ?thesis by simp
qed

theorem grouping_partition_witness:
  "group_by_country rat_floats [] [scenario_record, untitled_record]
     = Inr [(JStr (ustr ''CN''), [scenario_record]), (JStr (ustr ''unknown''), [untitled_record])]
   \<and> map_of untitled_record (ustr ''country'') = None
   \<and> mset (concat (map snd
        [(JStr (ustr ''CN''), [scenario_record]), (JStr (ustr ''unknown''), [untitled_record])]))
      = mset [scenario_record, untitled_record]
   \<and> (\<exists>b. (JStr (ustr ''unknown''), b)
          \<in> set [(JStr (ustr ''CN''), [scenario_record]), (JStr (ustr ''unknown''), [untitled_record])]
        \<and> untitled_record \<in> set b)"
proof -
  have c: "map_of untitled_record (ustr ''country'') = None"
    by (simp add: untitled_record_def)
  from grouping_partition [OF group_two] group_two c show ?thesis by simp
qed

lemma grouped_bucket_append:
  "grouped fl rm ps \<Longrightarrow> grouped fl (bucket_append fl (region_id_of nc) nc rm) (ps @ [nc])"
proof (induction rm arbitrary: ps)
  case Nil
  then show ?case by simp
next
  case (Cons kb rm)
  obtain k b where kb: "kb = (k, b)" by (cases kb)
  from Cons.prems kb obtain p rest where ps: "ps = p # rest" by (cases ps) auto
  from Cons.prems kb ps have k: "k = region_id_of p"
    and b: "b = p # filter (\<lambda>x. py_eq fl k (region_id_of x)) rest"
    and g: "grouped fl rm (filter (\<lambda>x. \<not> py_eq fl k (region_id_of x)) rest)" by auto
  show ?case
  proof (cases "py_eq fl k (region_id_of nc)")
    case True
    with k b g show ?thesis unfolding kb ps by simp
  next
    case False
    from Cons.IH [OF g] False k b show ?thesis unfolding kb ps by simp
  qed
qed

lemma grouped_group_by_country:
  "grouped fl rm done \<Longrightarrow> group_by_country fl rm ps = Inr rm' \<Longrightarrow> grouped fl rm' (done @ ps)"
proof (induction ps arbitrary: rm "done")
  case Nil
  then show ?case by simp
next
  case (Cons cp ps)
  from Cons.prems(2) have
    rest: "group_by_country fl (bucket_append fl (region_id_of cp) cp rm) ps = Inr rm'"
    by (auto simp: Let_def split: if_splits)
  from Cons.IH [OF grouped_bucket_append [OF Cons.prems(1)] rest] show ?case by simp
qed

lemma grouped_keys: "grouped fl rm ps \<Longrightarrow> fst ` set rm \<subseteq> region_id_of ` set ps"
proof (induction rm arbitrary: ps)
  case Nil
  then show ?case by simp
next
  case (Cons kb rm)
  obtain k b where kb: "kb = (k, b)" by (cases kb)
  from Cons.prems kb obtain p rest where ps: "ps = p # rest" by (cases ps) auto
  from Cons.prems kb ps have k: "k = region_id_of p"
    and g: "grouped fl rm (filter (\<lambda>x. \<not> py_eq fl k (region_id_of x)) rest)" by auto
  from Cons.IH [OF g] have "fst ` set rm \<subseteq> region_id_of ` set rest" by auto
  with k show ?case unfolding kb ps by auto
qed

lemma grouped_keys_differ:
  "grouped fl rm ps \<Longrightarrow> sorted_wrt (\<lambda>x y. \<not> py_eq fl (fst x) (fst y)) rm"
proof (induction rm arbitrary: ps)
  case Nil
  then show ?case by simp
next
  case (Cons kb rm)
  obtain k b where kb: "kb = (k, b)" by (cases kb)
  from Cons.prems kb obtain p rest where ps: "ps = p # rest" by (cases ps) auto
  from Cons.prems kb ps
  have g: "grouped fl rm (filter (\<lambda>x. \<not> py_eq fl k (region_id_of x)) rest)" by auto
  from grouped_keys [OF g] have "\<forall>y \<in> set rm. \<not> py_eq fl k (fst y)" by auto
  with Cons.IH [OF g] show ?case unfolding kb by simp
qed

lemma grouped_buckets:
  "grouped fl rm ps \<Longrightarrow> (k, b) \<in> set rm \<Longrightarrow>
     b \<noteq> [] \<and> k = region_id_of (hd b) \<and> subseq b ps
     \<and> (\<forall>nc \<in> set (tl b). py_eq fl k (region_id_of nc))"
proof (induction rm arbitrary: ps)
  case Nil
  then show ?case by simp
next
  case (Cons kb rm)
  obtain k0 b0 where kb: "kb = (k0, b0)" by (cases kb)
  from Cons.prems(1) kb obtain p rest where ps: "ps = p # rest" by (cases ps) auto
  from Cons.prems(1) kb ps have k: "k0 = region_id_of p"
    and b: "b0 = p # filter (\<lambda>x. py_eq fl k0 (region_id_of x)) rest"
    and g: "grouped fl rm (filter (\<lambda>x. \<not> py_eq fl k0 (region_id_of x)) rest)" by auto
  show ?case
  proof (cases "(k, b) = (k0, b0)")
    case True
    with k b show ?thesis unfolding ps by simp
  next
    case False
    with Cons.prems(2) kb have "(k, b) \<in> set rm" by auto
    from Cons.IH [OF g this] have 1: "b \<noteq> []" "k = region_id_of (hd b)"
      "\<forall>nc \<in> set (tl b). py_eq fl k (region_id_of nc)"
      and s: "subseq b (filter (\<lambda>x. \<not> py_eq fl k0 (region_id_of x)) rest)" by auto
    have "subseq (filter (\<lambda>x. \<not> py_eq fl k0 (region_id_of x)) rest) (p # rest)"
      by (simp add: list_emb_Cons)
    with s have "subseq b (p # rest)" by (rule subseq_order.trans)
    with 1 show ?thesis unfolding ps by simp
  qed
qed

lemma grouped_filter:
  "grouped fl rm ps \<Longrightarrow> key_equivalence fl (region_id_of ` set ps) \<Longrightarrow> (k, b) \<in> set rm \<Longrightarrow>
     b = filter (\<lambda>nc. py_eq fl k (region_id_of nc)) ps"
proof (induction rm arbitrary: ps)
  case Nil
  then show ?case by simp
next
  case (Cons kb rm)
  obtain k0 b0 where kb: "kb = (k0, b0)" by (cases kb)
  from Cons.prems(1) kb obtain p rest where ps: "ps = p # rest" by (cases ps) auto
  from Cons.prems(1) kb ps have k: "k0 = region_id_of p"
    and b: "b0 = p # filter (\<lambda>x. py_eq fl k0 (region_id_of x)) rest"
    and g: "grouped fl rm (filter (\<lambda>x. \<not> py_eq fl k0 (region_id_of x)) rest)" by auto
  let ?S = "region_id_of ` set ps"
  from Cons.prems(2) have refl: "\<And>a. a \<in> ?S \<Longrightarrow> py_eq fl a a"
    and sym: "\<And>a c. a \<in> ?S \<Longrightarrow> c \<in> ?S \<Longrightarrow> py_eq fl a c \<Longrightarrow> py_eq fl c a"
    and trans: "\<And>a c d. a \<in> ?S \<Longrightarrow> c \<in> ?S \<Longrightarrow> d \<in> ?S \<Longrightarrow> py_eq fl a c \<Longrightarrow> py_eq fl c d
        \<Longrightarrow> py_eq fl a d"
    unfolding key_equivalence_def by blast+
  have k0S: "k0 \<in> ?S" unfolding ps k by simp
  show ?case
  proof (cases "(k, b) \<in> set rm")
    case True
    let ?rest = "filter (\<lambda>x. \<not> py_eq fl k0 (region_id_of x)) rest"
    have sub: "region_id_of ` set ?rest \<subseteq> ?S" unfolding ps by auto
    with Cons.prems(2) have e: "key_equivalence fl (region_id_of ` set ?rest)"
      unfolding key_equivalence_def by (meson subsetD)
    from Cons.IH [OF g e True]
    have b': "b = filter (\<lambda>nc. py_eq fl k (region_id_of nc)) ?rest" .
    from grouped_keys [OF g] True have "k \<in> region_id_of ` set ?rest" by force
    then have kS: "k \<in> ?S" and nk: "\<not> py_eq fl k0 k" using sub by auto
    have np: "\<not> py_eq fl k (region_id_of p)"
      using sym [OF kS k0S] nk unfolding k by blast
    have imp: "\<not> py_eq fl k0 (region_id_of x)"
      if "x \<in> set rest" and 1: "py_eq fl k (region_id_of x)" for x
    proof
      assume 2: "py_eq fl k0 (region_id_of x)"
      from that(1) have xS: "region_id_of x \<in> ?S" unfolding ps by simp
      from sym [OF kS xS 1] have "py_eq fl (region_id_of x) k" .
      from trans [OF k0S xS kS 2 this] nk show False by simp
    qed
    have "filter (\<lambda>nc. py_eq fl k (region_id_of nc)) ?rest
        = filter (\<lambda>nc. py_eq fl k (region_id_of nc)) rest"
      unfolding filter_filter by (rule filter_cong) (auto dest: imp)
    with b' np show ?thesis unfolding ps by simp
  next
    case False
    with Cons.prems(3) kb have eq: "k = k0" "b = b0" by auto
    from refl [OF k0S] k b eq show ?thesis unfolding ps by simp
  qed
qed

lemma key_equivalence_strings:
  "\<forall>a \<in> S. a = JNull \<or> (\<exists>s. a = JStr s) \<Longrightarrow> key_equivalence fl S"
  unfolding key_equivalence_def by (auto simp: py_eq_JStr py_eq_JNull)

lemma sorted_wrt_distinct:
  "sorted_wrt (\<lambda>x y. f x \<noteq> f y) xs \<Longrightarrow> distinct (map f xs)"
  by (induction xs) auto

text \<open>
  The buckets of a grouping that ends without an exception. No key equals an earlier one;
  every bucket is a subsequence of the records, starts with the record that opened it
  and has the \<open>region_id\<close> of that record as its key, which equals the \<open>region_id\<close> of every
  other record in it. Where \<^verbatim>\<open>==\<close> is an equivalence on the \<open>region_id\<close>s, a bucket holds, in
  their order, exactly the records whose \<open>region_id\<close> its key equals: records of one
  country share one bucket. Where every \<open>region_id\<close> is a string or null, the keys are
  distinct, they are the \<open>region_id\<close>s that occur, and the bucket of a key holds exactly the
  records with that \<open>region_id\<close>.
\<close>

theorem grouping_buckets:
  assumes "group_by_country fl [] processed = Inr region_map"
  shows "grouped fl region_map processed
     \<and> (\<forall>i j. i < j \<and> j < length region_map \<longrightarrow>
          \<not> py_eq fl (fst (region_map ! i)) (fst (region_map ! j)))
     \<and> (\<forall>(k, b) \<in> set region_map. b \<noteq> [] \<and> k = region_id_of (hd b) \<and> subseq b processed
          \<and> (\<forall>nc \<in> set (tl b). py_eq fl k (region_id_of nc)))
     \<and> (key_equivalence fl (region_id_of ` set processed) \<longrightarrow>
          (\<forall>(k, b) \<in> set region_map. b = filter (\<lambda>nc. py_eq fl k (region_id_of nc)) processed))
     \<and> ((\<forall>nc \<in> set processed. region_id_of nc = JNull \<or> (\<exists>s. region_id_of nc = JStr s)) \<longrightarrow>
          distinct (map fst region_map)
          \<and> set (map fst region_map) = region_id_of ` set processed
          \<and> (\<forall>(k, b) \<in> set region_map. b = filter (\<lambda>nc. region_id_of nc = k) processed))"
proof -
  have g: "grouped fl region_map processed"
    using grouped_group_by_country [of fl "[]" "[]" processed region_map] assms by simp
  have d: "\<not> py_eq fl (fst (region_map ! i)) (fst (region_map ! j))"
    if "i < j \<and> j < length region_map" for i j
    using grouped_keys_differ [OF g] that by (simp add: sorted_wrt_iff_nth_less)
  have b: "\<forall>(k, b) \<in> set region_map. b \<noteq> [] \<and> k = region_id_of (hd b) \<and> subseq b processed
          \<and> (\<forall>nc \<in> set (tl b). py_eq fl k (region_id_of nc))"
    using grouped_buckets [OF g] by blast
  have f: "\<forall>(k, b) \<in> set region_map. b = filter (\<lambda>nc. py_eq fl k (region_id_of nc)) processed"
    if "key_equivalence fl (region_id_of ` set processed)"
    using grouped_filter [OF g that] by blast
  have s: "distinct (map fst region_map)
          \<and> set (map fst region_map) = region_id_of ` set processed
          \<and> (\<forall>(k, b) \<in> set region_map. b = filter (\<lambda>nc. region_id_of nc = k) processed)"
    if ids: "\<forall>nc \<in> set processed. region_id_of nc = JNull \<or> (\<exists>s. region_id_of nc = JStr s)"
  proof -
    have eq: "py_eq fl k (region_id_of nc) \<longleftrightarrow> region_id_of nc = k" if "nc \<in> set processed" for k nc
      using ids that by (auto simp: py_eq_JStr py_eq_JNull)
    from ids have "key_equivalence fl (region_id_of ` set processed)"
      by (intro key_equivalence_strings) auto
    from f [OF this] have fb: "\<forall>(k, b) \<in> set region_map.
        b = filter (\<lambda>nc. region_id_of nc = k) processed"
      using eq by (auto intro!: filter_cong)
    have ks: "fst ` set region_map \<subseteq> region_id_of ` set processed" using g by (rule grouped_keys)
    have "sorted_wrt (\<lambda>x y. fst x \<noteq> fst y) region_map"
    proof -
      have "fst x \<noteq> fst y" if "y \<in> set region_map" "\<not> py_eq fl (fst x) (fst y)" for x y
      proof -
        from that(1) ks obtain nc where "nc \<in> set processed" "fst y = region_id_of nc" by auto
        with eq [of nc "fst x"] that(2) show ?thesis by auto
      qed
      then show ?thesis
        by (rule sorted_wrt_mono_rel [OF _ grouped_keys_differ [OF g]])
    qed
    then have di: "distinct (map fst region_map)" by (rule sorted_wrt_distinct)
    have "region_id_of nc \<in> fst ` set region_map" if "nc \<in> set processed" for nc
    proof -
      from that bucket_records [OF assms] obtain k b where kb: "(k, b) \<in> set region_map" "nc \<in> set b"
        by blast
      with fb have "region_id_of nc = k" by auto
      with kb show ?thesis by force
    qed
    with ks have "set (map fst region_map) = region_id_of ` set processed" by auto
    with di fb show ?thesis by blast
  qed
  from g d b f s show ?thesis by blast
qed

lemma group_four:
  "group_by_country rat_floats [] [plain_CN_record, untitled_record, scenario_record, null_iso_record]
     = Inr [(JStr (ustr ''CN''), [plain_CN_record, scenario_record]),
            (JStr (ustr ''unknown''), [untitled_record]),
            (JNull, [null_iso_record])]"
proof -
  have "region_id_of scenario_record = JStr (ustr ''CN'')"
    "region_id_of plain_CN_record = JStr (ustr ''CN'')"
    "region_id_of untitled_record = JStr (ustr ''unknown'')"
    "region_id_of null_iso_record = JNull"
    by (simp_all add: region_id_of_def scenario_record_def untitled_record_def
        plain_CN_record_def null_iso_record_def)
  then show ?thesis by simp
qed

lemma grouping_buckets_example:
  "distinct [JStr (ustr ''CN''), JStr (ustr ''unknown''), (JNull :: rat json)]
   \<and> filter (\<lambda>nc. region_id_of nc = JStr (ustr ''CN''))
        [plain_CN_record, untitled_record, scenario_record, null_iso_record]
      = [plain_CN_record, scenario_record]"
proof -
  have ids: "\<forall>nc \<in> set [plain_CN_record, untitled_record, scenario_record, null_iso_record].
      region_id_of nc = JNull \<or> (\<exists>s. region_id_of nc = JStr s)"
    by (simp add: region_id_of_def scenario_record_def untitled_record_def
        plain_CN_record_def null_iso_record_def)
  from grouping_buckets [OF group_four] ids
  have "distinct (map fst [(JStr (ustr ''CN''), [plain_CN_record, scenario_record]),
            (JStr (ustr ''unknown''), [untitled_record]),
            (JNull :: rat json, [null_iso_record])])"
    and "\<forall>(k, b) \<in> set [(JStr (ustr ''CN''), [plain_CN_record, scenario_record]),
            (JStr (ustr ''unknown''), [untitled_record]),
            (JNull, [null_iso_record])].
        b = filter (\<lambda>nc. region_id_of nc = k)
          [plain_CN_record, untitled_record, scenario_record, null_iso_record]"
    by blast+
  then show ?thesis by simp
qed

subsection \<open>Claim C7: a foreign country without ISO code\<close>

text \<open>
  Claim C7 fails on the code. A record with no resolvable country is to be grouped under
  the string \<^verbatim>\<open>unknown\<close>, and line 101 does that for a record without the key \<^verbatim>\<open>country\<close>,
  by the default of \<^verbatim>\<open>cp.get('country', 'unknown')\<close>. But for a truthy foreign country whose
  \<^verbatim>\<open>iso_code\<close> is absent or null, line 86 sets \<^verbatim>\<open>country\<close> to null; the key is then present,
  the default is not used, and the record is grouped under the key null: for every
  checkpoint \<open>cp\<close> of that kind that is admitted, a document holding it gives the single
  bucket of the key null. (The rest of the claim holds, see \<open>grouping_partition\<close> and
  \<open>grouping_buckets\<close>.)
\<close>

theorem grouping_null_iso_code:
  assumes "normalize fl cp = Inr (Some nc)"
    and "py_get cp (ustr ''foreign_country'') JNull = Inr fc" and "truthy fl fc"
    and "py_get fc (ustr ''iso_code'') JNull = Inr JNull"
  shows "map_of nc (ustr ''country'') = Some JNull
     \<and> region_id_of nc = JNull
     \<and> region_id_of nc \<noteq> JStr (ustr ''unknown'')
     \<and> extract_ru_borders fl (document_of [cp]) = Inr ([(JNull, [nc])], [nc])"
proof -
  from normalize_country [OF assms(1)] assms(2-4)
  have c: "map_of nc (ustr ''country'') = Some JNull" by auto
  then have r: "region_id_of nc = JNull" by (simp add: region_id_of_def)
  from extract_single [OF assms(1)] r c show ?thesis by simp
qed

theorem grouping_null_iso_code_witness:
  "normalize rat_floats null_iso_checkpoint = Inr (Some null_iso_record)
   \<and> py_get null_iso_checkpoint (ustr ''foreign_country'') JNull
     = Inr (JObj [(ustr ''iso_code'', JNull)])
   \<and> truthy rat_floats (JObj [(ustr ''iso_code'', JNull)])
   \<and> py_get (JObj [(ustr ''iso_code'', JNull)]) (ustr ''iso_code'') JNull = Inr (JNull :: rat json)
   \<and> extract_ru_borders rat_floats (document_of [null_iso_checkpoint])
     = Inr ([(JNull, [null_iso_record])], [null_iso_record])"
proof -
  have h: "py_get null_iso_checkpoint (ustr ''foreign_country'') JNull
     = Inr (JObj [(ustr ''iso_code'', JNull)])"
    "truthy rat_floats (JObj [(ustr ''iso_code'', JNull)])"
    "py_get (JObj [(ustr ''iso_code'', JNull)]) (ustr ''iso_code'') JNull = Inr (JNull :: rat json)"
    by (simp_all add: null_iso_checkpoint_def)
  from grouping_null_iso_code [OF normalize_null_iso h] normalize_null_iso h
  show ?thesis by blast
qed

subsection \<open>Claim C6: the status classifiers never raise\<close>

text \<open>
  Claim C6. The status code of lines 74 to 80 is a function of the label that raises
  nothing: it is 1 for the string \<^verbatim>\<open>Bilateral\<close>, 2 for the string \<^verbatim>\<open>Multilateral\<close> and null
  for every other value, among them null, \<^verbatim>\<open>bilateral\<close> and \<^verbatim>\<open>random text\<close>; the
  label of a checkpoint without the key \<^verbatim>\<open>status\<close> is null; and \<^verbatim>\<open>extract_status\<close> returns
  null for every value that is not a string.
\<close>

theorem classify_status_total:
  "classify_status fl v =
     (if v = JStr (ustr ''Bilateral'') then JInt 1
      else if v = JStr (ustr ''Multilateral'') then JInt 2 else JNull)
   \<and> classify_status fl JNull = JNull
   \<and> classify_status fl (JStr (ustr ''Bilateral'')) = JInt 1
   \<and> classify_status fl (JStr (ustr ''Multilateral'')) = JInt 2
   \<and> classify_status fl (JStr (ustr ''bilateral'')) = JNull
   \<and> classify_status fl (JStr (ustr ''random text'')) = JNull
   \<and> extract_status (JNull :: 'f json) = (JNull :: 'f json)
   \<and> extract_status (JBool b :: 'f json) = (JNull :: 'f json)
   \<and> extract_status (JInt n :: 'f json) = (JNull :: 'f json)
   \<and> extract_status (JFloat x :: 'f json) = (JNull :: 'f json)
   \<and> extract_status (JArr xs :: 'f json) = (JNull :: 'f json)
   \<and> extract_status (JObj kvs :: 'f json) = (JNull :: 'f json)
   \<and> (map_of cfs (ustr ''status'') = None \<longrightarrow>
        get3 (JObj cfs) (ustr ''status'') (ustr ''title'') (ustr ''en'') = Inr (JNull :: 'f json))"
  by (simp add: classify_status_def py_eq_JStr get3_def)

theorem classify_status_total_witness:
  "classify_status rat_floats (JStr (ustr ''random text'')) = JNull
   \<and> classify_status rat_floats (JStr (ustr ''Multilateral'')) = JInt 2
   \<and> extract_status (JInt 7 :: rat json) = (JNull :: rat json)"
  using classify_status_total [of rat_floats "JStr (ustr ''Multilateral'')" True 7 0 "[]" "[]" "[]"]
  by blast

subsection \<open>Claim C3: a checkpoint without a title\<close>

text \<open>
  Claim C3 fails on the code. An automobile checkpoint with condition true, no title and a
  non-empty foreign checkpoint name makes the loop body raise \<^verbatim>\<open>KeyError\<close>: line 92 reads
  \<^verbatim>\<open>new_checkpoint['name_en']\<close>, which is set only when there is a title. (Without the
  foreign name the record is kept with a null name, see \<open>normalize_untitled\<close>.)
\<close>

theorem normalize_untitled_KeyError:
  "normalize fl
     (JObj [(ustr ''checkpoint_type'', automobile),
            (ustr ''condition'', JBool True),
            (ustr ''foreign_checkpoint'', JObj [(ustr ''ru'', JStr (x # xs))])])
   = Inl KeyError"
  by (simp add: normalize_def get3_def get2_def name_fields_def
      classify_status_def foreign_fields_def country_field_def dict_getitem_def automobile_def)

theorem normalize_untitled_KeyError_witness:
  "normalize rat_floats untitled_foreign_checkpoint = Inl KeyError"
  using normalize_untitled_KeyError [of rat_floats "0x41C" "tl Manchzhuriya_ru"]
  by (simp add: untitled_foreign_checkpoint_def Manchzhuriya_ru_def)

section \<open>Properties of the parenthetical strip\<close>

lemma match_paren_None: "0x28 \<notin> set s \<Longrightarrow> match_paren s = None"
proof -
  assume a: "0x28 \<notin> set s"
  show ?thesis
  proof (cases "dropWhile is_space s")
    case Nil
    then show ?thesis by (simp only: match_paren_def list.case)
  next
    case (Cons c cs)
    then have "c \<in> set (dropWhile is_space s)" by simp
    then have "c \<in> set s" by (rule set_dropWhileD)
    with a have "c \<noteq> 0x28" by auto
    with Cons show ?thesis by (simp add: match_paren_def)
  qed
qed

lemma re_sub_parens_no_paren: "0x28 \<notin> set s \<Longrightarrow> re_sub_parens s = s"
  by (induction s) (simp_all add: match_paren_None)

lemma re_sub_parens_match: "match_paren s = Some rest \<Longrightarrow> re_sub_parens s = re_sub_parens rest"
  by (cases s) (simp_all add: match_paren_def)

lemma close_paren_inner:
  "0x29 \<notin> set inner \<Longrightarrow> 0x0A \<notin> set inner \<Longrightarrow> close_paren (inner @ 0x29 # t) = Some t"
  by (induction inner) auto

lemma dropWhile_spaces:
  "\<forall>c \<in> set ws. is_space c \<Longrightarrow> t = [] \<or> \<not> is_space (hd t) \<Longrightarrow> dropWhile is_space (ws @ t) = t"
  by (cases t) (simp_all add: dropWhile_append2)

lemma paren_not_space: "\<not> is_space 0x28"
  by (simp add: is_space_def)

lemma match_paren_group:
  assumes "\<forall>c \<in> set ws1. is_space c" "0x29 \<notin> set inner" "0x0A \<notin> set inner"
    "\<forall>c \<in> set ws2. is_space c" "post = [] \<or> \<not> is_space (hd post)"
  shows "match_paren (ws1 @ 0x28 # inner @ 0x29 # ws2 @ post) = Some post"
proof -
  have "dropWhile is_space (ws1 @ 0x28 # inner @ 0x29 # ws2 @ post)
      = 0x28 # inner @ 0x29 # ws2 @ post"
    using assms(1) paren_not_space by (intro dropWhile_spaces) simp_all
  moreover have "close_paren (inner @ 0x29 # ws2 @ post) = Some (ws2 @ post)"
    using assms(2,3) by (rule close_paren_inner)
  moreover have "dropWhile is_space (ws2 @ post) = post"
    using assms(4,5) by (rule dropWhile_spaces)
  ultimately show ?thesis by (simp add: match_paren_def)
qed

lemma match_paren_before:
  assumes "0x28 \<notin> set pre" "pre \<noteq> []" "\<not> is_space (last pre)"
  shows "match_paren (pre @ t) = None"
proof -
  have l: "last pre \<in> set pre" using assms(2) by simp
  have d: "dropWhile is_space (pre @ t) = dropWhile is_space pre @ t"
    using l assms(3) by (rule dropWhile_append1)
  have ne: "dropWhile is_space pre \<noteq> []"
    using l assms(3) by (auto simp: dropWhile_eq_Nil_conv)
  then obtain c cs where c: "dropWhile is_space pre = c # cs" by (cases "dropWhile is_space pre") auto
  then have "c \<in> set (dropWhile is_space pre)" by simp
  then have "c \<in> set pre" by (rule set_dropWhileD)
  with assms(1) have "c \<noteq> 0x28" by auto
  with d c show ?thesis by (simp add: match_paren_def)
qed

lemma re_sub_parens_group:
  assumes "0x28 \<notin> set pre" "pre = [] \<or> \<not> is_space (last pre)"
    "\<forall>c \<in> set ws1. is_space c" "0x29 \<notin> set inner" "0x0A \<notin> set inner"
    "\<forall>c \<in> set ws2. is_space c" "post = [] \<or> \<not> is_space (hd post)"
  shows "re_sub_parens (pre @ ws1 @ 0x28 # inner @ 0x29 # ws2 @ post) = pre @ re_sub_parens post"
  using assms(1,2)
proof (induction pre)
  case Nil
  from match_paren_group [OF assms(3-7)] show ?case
    by (simp add: re_sub_parens_match)
next
  case (Cons p pre)
  from Cons.prems have ns: "\<not> is_space (last (p # pre))" by simp
  have "match_paren ((p # pre) @ ws1 @ 0x28 # inner @ 0x29 # ws2 @ post) = None"
    using Cons.prems(1) _ ns by (rule match_paren_before) simp
  moreover have "0x28 \<notin> set pre" "pre = [] \<or> \<not> is_space (last pre)"
    using Cons.prems by (auto split: if_splits)
  ultimately show ?case using Cons.IH by simp
qed

lemma close_paren_SomeD:
  "close_paren cs = Some t \<Longrightarrow>
     \<exists>inner. cs = inner @ 0x29 # t \<and> 0x29 \<notin> set inner \<and> 0x0A \<notin> set inner"
proof (induction cs)
  case Nil
  then show ?case by simp
next
  case (Cons c cs)
  show ?case
  proof (cases "c = 0x29")
    case True
    with Cons.prems have "c # cs = [] @ 0x29 # t \<and> 0x29 \<notin> set [] \<and> 0x0A \<notin> set []" by simp
    then show ?thesis by blast
  next
    case False
    with Cons.prems have n: "c \<noteq> 0x0A" and r: "close_paren cs = Some t"
      by (auto split: if_splits)
    from Cons.IH [OF r] obtain inner where
      "cs = inner @ 0x29 # t" "0x29 \<notin> set inner" "0x0A \<notin> set inner" by blast
    with False n have "c # cs = (c # inner) @ 0x29 # t \<and> 0x29 \<notin> set (c # inner)
        \<and> 0x0A \<notin> set (c # inner)" by simp
    then show ?thesis by blast
  qed
qed

lemma close_paren_closed: "0x0A \<notin> set g \<Longrightarrow> close_paren (g @ 0x29 # rest) \<noteq> None"
  by (induction g) auto

lemma match_paren_SomeD:
  assumes "match_paren s = Some post"
  shows "\<exists>ws1 inner ws2. s = ws1 @ 0x28 # inner @ 0x29 # ws2 @ post
      \<and> (\<forall>c \<in> set ws1. is_space c) \<and> 0x29 \<notin> set inner \<and> 0x0A \<notin> set inner
      \<and> (\<forall>c \<in> set ws2. is_space c) \<and> (post = [] \<or> \<not> is_space (hd post))"
proof -
  from assms obtain cs t where d: "dropWhile is_space s = 0x28 # cs"
    and c: "close_paren cs = Some t" and p: "post = dropWhile is_space t"
    by (auto simp: match_paren_def split: list.splits if_splits)
  from close_paren_SomeD [OF c] obtain inner where
    i: "cs = inner @ 0x29 # t" "0x29 \<notin> set inner" "0x0A \<notin> set inner" by blast
  have "s = takeWhile is_space s @ dropWhile is_space s" by simp
  also have "dropWhile is_space s = 0x28 # inner @ 0x29 # takeWhile is_space t @ post"
    using d i(1) p by simp
  finally have s: "s = takeWhile is_space s @ 0x28 # inner @ 0x29 # takeWhile is_space t @ post" .
  have w1: "\<forall>c \<in> set (takeWhile is_space s). is_space c" by (auto dest: set_takeWhileD)
  have w2: "\<forall>c \<in> set (takeWhile is_space t). is_space c" by (auto dest: set_takeWhileD)
  have h: "post = [] \<or> \<not> is_space (hd post)"
    unfolding p by (cases "dropWhile is_space t = []") (simp_all add: hd_dropWhile)
  from s w1 i(2,3) w2 h show ?thesis by blast
qed

lemma match_paren_front:
  assumes "\<forall>c \<in> set ws. is_space c" "0x0A \<notin> set g"
  shows "match_paren (ws @ 0x28 # g @ 0x29 # rest) \<noteq> None"
proof -
  have "dropWhile is_space (ws @ 0x28 # g @ 0x29 # rest) = 0x28 # g @ 0x29 # rest"
    using assms(1) paren_not_space by (intro dropWhile_spaces) simp_all
  with close_paren_closed [OF assms(2), of rest] show ?thesis
    by (auto simp: match_paren_def)
qed

lemma match_paren_None_iff:
  "match_paren s = None \<longleftrightarrow>
     \<not> (\<exists>ws g rest. s = ws @ 0x28 # g @ 0x29 # rest \<and> (\<forall>c \<in> set ws. is_space c) \<and> 0x0A \<notin> set g)"
proof
  assume n: "match_paren s = None"
  show "\<not> (\<exists>ws g rest. s = ws @ 0x28 # g @ 0x29 # rest \<and> (\<forall>c \<in> set ws. is_space c) \<and> 0x0A \<notin> set g)"
  proof
    assume "\<exists>ws g rest. s = ws @ 0x28 # g @ 0x29 # rest \<and> (\<forall>c \<in> set ws. is_space c) \<and> 0x0A \<notin> set g"
    then obtain ws g rest where "s = ws @ 0x28 # g @ 0x29 # rest" "\<forall>c \<in> set ws. is_space c"
      "0x0A \<notin> set g" by blast
    with match_paren_front [of ws g rest] n show False by simp
  qed
next
  assume a: "\<not> (\<exists>ws g rest. s = ws @ 0x28 # g @ 0x29 # rest \<and> (\<forall>c \<in> set ws. is_space c) \<and> 0x0A \<notin> set g)"
  show "match_paren s = None"
  proof (rule ccontr)
    assume "match_paren s \<noteq> None"
    then obtain post where "match_paren s = Some post" by auto
    from match_paren_SomeD [OF this] obtain ws1 inner ws2 where
      "s = ws1 @ 0x28 # inner @ 0x29 # (ws2 @ post)" "\<forall>c \<in> set ws1. is_space c" "0x0A \<notin> set inner"
      by auto
    with a show False by blast
  qed
qed

lemma re_sub_parens_copy:
  "match_paren (x # xs) = None \<Longrightarrow> re_sub_parens (x # xs) = x # re_sub_parens xs"
  by simp

lemma py_strip_core:
  assumes "\<forall>c \<in> set sp1. is_space c" "\<forall>c \<in> set sp2. is_space c"
    "core = [] \<or> \<not> is_space (hd core) \<and> \<not> is_space (last core)"
  shows "py_strip (sp1 @ core @ sp2) = core"
proof (cases "core = []")
  case True
  from assms(1,2) have "\<forall>c \<in> set (sp1 @ sp2). is_space c" by auto
  then have d: "dropWhile is_space (sp1 @ sp2) = []" by (simp only: dropWhile_eq_Nil_conv)
  have "py_strip (sp1 @ sp2) = []" unfolding py_strip_def d by simp
  with True show ?thesis by simp
next
  case False
  with assms(3) have h: "\<not> is_space (hd core)" and l: "\<not> is_space (last core)" by auto
  have 1: "dropWhile is_space (sp1 @ core @ sp2) = core @ sp2"
    using assms(1) by (rule dropWhile_spaces) (use False h in simp)
  have 2: "dropWhile is_space (rev sp2 @ rev core) = rev core"
    by (rule dropWhile_spaces) (use assms(2) False l in \<open>simp_all add: hd_rev\<close>)
  show ?thesis by (simp add: py_strip_def 1 2)
qed

lemma re_sub_parens_unclosed:
  "\<not> (\<exists>a g rest. s = a @ 0x28 # g @ 0x29 # rest \<and> 0x0A \<notin> set g) \<Longrightarrow> re_sub_parens s = s"
proof (induction s)
  case Nil
  show ?case by simp
next
  case (Cons x xs)
  have t: "\<not> (\<exists>a g rest. xs = a @ 0x28 # g @ 0x29 # rest \<and> 0x0A \<notin> set g)"
  proof
    assume "\<exists>a g rest. xs = a @ 0x28 # g @ 0x29 # rest \<and> 0x0A \<notin> set g"
    then obtain a g rest where "xs = a @ 0x28 # g @ 0x29 # rest" "0x0A \<notin> set g" by blast
    then have "x # xs = (x # a) @ 0x28 # g @ 0x29 # rest \<and> 0x0A \<notin> set g" by simp
    with Cons.prems show False by blast
  qed
  have "match_paren (x # xs) = None"
    unfolding match_paren_None_iff using Cons.prems by blast
  with Cons.IH [OF t] show ?case by simp
qed

text \<open>
  The three rules of the scan determine it: a function that returns the empty string on
  the empty string, skips a group with the whitespace around it where the text starts with
  one, and copies the first character where it does not, is \<open>re_sub_parens\<close>.
\<close>

lemma re_sub_parens_unique:
  assumes n: "f [] = []"
    and m: "\<And>ws1 inner ws2 post.
      (\<forall>c \<in> set ws1. is_space c) \<Longrightarrow> 0x29 \<notin> set inner \<Longrightarrow> 0x0A \<notin> set inner \<Longrightarrow>
      (\<forall>c \<in> set ws2. is_space c) \<Longrightarrow> post = [] \<or> \<not> is_space (hd post) \<Longrightarrow>
      f (ws1 @ 0x28 # inner @ 0x29 # ws2 @ post) = f post"
    and c: "\<And>x xs.
      \<not> (\<exists>ws g rest. x # xs = ws @ 0x28 # g @ 0x29 # rest \<and> (\<forall>c \<in> set ws. is_space c) \<and> 0x0A \<notin> set g) \<Longrightarrow>
      f (x # xs) = x # f xs"
  shows "f s = re_sub_parens s"
proof (induction s rule: length_induct)
  case (1 s)
  show ?case
  proof (cases s)
    case Nil
    with n show ?thesis by simp
  next
    case (Cons x xs)
    show ?thesis
    proof (cases "match_paren s")
      case None
      then have "f (x # xs) = x # f xs"
        unfolding Cons match_paren_None_iff by (rule c)
      moreover have "f xs = re_sub_parens xs" using 1 Cons by simp
      ultimately show ?thesis using None Cons by simp
    next
      case (Some post)
      from match_paren_SomeD [OF Some] obtain ws1 inner ws2 where
        d: "s = ws1 @ 0x28 # inner @ 0x29 # ws2 @ post" "\<forall>c \<in> set ws1. is_space c"
          "0x29 \<notin> set inner" "0x0A \<notin> set inner" "\<forall>c \<in> set ws2. is_space c"
          "post = [] \<or> \<not> is_space (hd post)" by blast
      have "length post < length s" unfolding d(1) by simp
      with 1 have "f post = re_sub_parens post" by simp
      moreover have "f s = f post" unfolding d(1) using d(2-6) by (rule m)
      moreover have "re_sub_parens s = re_sub_parens post"
        using Some by (rule re_sub_parens_match)
      ultimately show ?thesis by simp
    qed
  qed
qed

subsection \<open>Claim C4: the name without its parenthetical\<close>

text \<open>
  Claim C4, as amended, for every \<^verbatim>\<open>full_name\<close>. \<^verbatim>\<open>name_en\<close> is \<^verbatim>\<open>full_name\<close> itself when that
  has no opening parenthesis; otherwise it is the text that the scan \<open>re_sub_parens\<close> leaves,
  stripped of whitespace at both ends. The scan goes from left to right. Where the text
  starts with whitespace \<open>wa\<close>, a group (an opening parenthesis, a text \<open>inner\<close> without
  closing parenthesis and without newline, a closing parenthesis) and whitespace \<open>wb\<close>
  up to a \<open>post\<close> that does not start with whitespace, all of that is removed and the scan
  goes on in \<open>post\<close>: every group is removed, not only the first. Where the text does not
  start with whitespace and an opening parenthesis that is closed on the same line, its
  first character is kept and the scan goes on behind it. These rules fix the result for
  every text (lemma \<open>re_sub_parens_unique\<close>). Stripping a text that is whitespace \<open>sa\<close>, a
  \<open>core\<close> that neither starts nor ends with whitespace, and whitespace \<open>sb\<close> gives \<open>core\<close>.
  In particular: a \<open>pre\<close> without opening parenthesis that does not end in whitespace stays
  in front of what the scan leaves of \<open>post\<close>; a text in which no opening parenthesis is
  closed on its line is left as it is by the scan, and so is a text without opening
  parenthesis. The dict of a record with a title has \<^verbatim>\<open>name\<close> equal to \<^verbatim>\<open>name_en\<close> until
  the foreign name is dealt with.
\<close>

theorem name_en_of_groups:
  "name_en_of full_name =
     (if 0x28 \<in> set full_name then py_strip (re_sub_parens full_name) else full_name)
   \<and> re_sub_parens [] = []
   \<and> ((\<forall>c \<in> set wa. is_space c) \<and> 0x29 \<notin> set inner \<and> 0x0A \<notin> set inner
        \<and> (\<forall>c \<in> set wb. is_space c) \<and> (post = [] \<or> \<not> is_space (hd post)) \<longrightarrow>
      re_sub_parens (wa @ 0x28 # inner @ 0x29 # wb @ post) = re_sub_parens post)
   \<and> (\<not> (\<exists>ws g rest. x # xs = ws @ 0x28 # g @ 0x29 # rest
            \<and> (\<forall>c \<in> set ws. is_space c) \<and> 0x0A \<notin> set g) \<longrightarrow>
      re_sub_parens (x # xs) = x # re_sub_parens xs)
   \<and> ((\<forall>c \<in> set sa. is_space c) \<and> (\<forall>c \<in> set sb. is_space c)
        \<and> (core = [] \<or> \<not> is_space (hd core) \<and> \<not> is_space (last core)) \<longrightarrow>
      py_strip (sa @ core @ sb) = core)
   \<and> (0x28 \<notin> set pre \<and> (pre = [] \<or> \<not> is_space (last pre))
        \<and> (\<forall>c \<in> set wa. is_space c) \<and> 0x29 \<notin> set inner \<and> 0x0A \<notin> set inner
        \<and> (\<forall>c \<in> set wb. is_space c) \<and> (post = [] \<or> \<not> is_space (hd post)) \<longrightarrow>
      name_en_of (pre @ wa @ 0x28 # inner @ 0x29 # wb @ post)
        = py_strip (pre @ re_sub_parens post))
   \<and> (\<not> (\<exists>a g rest. s = a @ 0x28 # g @ 0x29 # rest \<and> 0x0A \<notin> set g) \<longrightarrow>
      re_sub_parens s = s)
   \<and> (0x28 \<notin> set post \<longrightarrow> re_sub_parens post = post)
   \<and> name_fields fl (JStr (t # ts)) =
       Inr [(ustr ''name_ru'', JStr (t # ts)),
            (ustr ''full_name'', JStr (cyrillic_to_latin (t # ts))),
            (ustr ''name_en'', JStr (name_en_of (cyrillic_to_latin (t # ts)))),
            (ustr ''name'', JStr (name_en_of (cyrillic_to_latin (t # ts))))]"
proof -
  have 1: "name_en_of full_name =
     (if 0x28 \<in> set full_name then py_strip (re_sub_parens full_name) else full_name)"
    by (simp add: name_en_of_def)
  have 2: "re_sub_parens (wa @ 0x28 # inner @ 0x29 # wb @ post) = re_sub_parens post"
    if "(\<forall>c \<in> set wa. is_space c) \<and> 0x29 \<notin> set inner \<and> 0x0A \<notin> set inner
        \<and> (\<forall>c \<in> set wb. is_space c) \<and> (post = [] \<or> \<not> is_space (hd post))"
    using that re_sub_parens_group [of "[]" wa inner wb post] by simp
  have 3: "re_sub_parens (x # xs) = x # re_sub_parens xs"
    if "\<not> (\<exists>ws g rest. x # xs = ws @ 0x28 # g @ 0x29 # rest
            \<and> (\<forall>c \<in> set ws. is_space c) \<and> 0x0A \<notin> set g)"
    using that unfolding match_paren_None_iff [symmetric] by (rule re_sub_parens_copy)
  have 4: "py_strip (sa @ core @ sb) = core"
    if "(\<forall>c \<in> set sa. is_space c) \<and> (\<forall>c \<in> set sb. is_space c)
        \<and> (core = [] \<or> \<not> is_space (hd core) \<and> \<not> is_space (last core))"
    using that py_strip_core [of sa sb core] by blast
  have 5: "name_en_of (pre @ wa @ 0x28 # inner @ 0x29 # wb @ post)
        = py_strip (pre @ re_sub_parens post)"
    if "0x28 \<notin> set pre \<and> (pre = [] \<or> \<not> is_space (last pre))
        \<and> (\<forall>c \<in> set wa. is_space c) \<and> 0x29 \<notin> set inner \<and> 0x0A \<notin> set inner
        \<and> (\<forall>c \<in> set wb. is_space c) \<and> (post = [] \<or> \<not> is_space (hd post))"
    using that re_sub_parens_group [of pre wa inner wb post] by (simp add: name_en_of_def)
  have 6: "re_sub_parens s = s"
    if "\<not> (\<exists>a g rest. s = a @ 0x28 # g @ 0x29 # rest \<and> 0x0A \<notin> set g)"
    using that by (rule re_sub_parens_unclosed)
  have 7: "0x28 \<notin> set post \<longrightarrow> re_sub_parens post = post"
    by (simp add: re_sub_parens_no_paren)
  have 8: "name_fields fl (JStr (t # ts)) =
       Inr [(ustr ''name_ru'', JStr (t # ts)),
            (ustr ''full_name'', JStr (cyrillic_to_latin (t # ts))),
            (ustr ''name_en'', JStr (name_en_of (cyrillic_to_latin (t # ts)))),
            (ustr ''name'', JStr (name_en_of (cyrillic_to_latin (t # ts))))]"
    by (simp add: name_fields_def)
  have 0: "re_sub_parens [] = []" by simp
  from 1 0 2 3 4 5 6 7 8 show ?thesis by blast
qed

theorem name_en_of_groups_witness:
  "name_en_of (ustr ''Zabaykalsk (avto)'') = ustr ''Zabaykalsk''
   \<and> name_en_of (ustr ''Zabaykalsk'') = ustr ''Zabaykalsk''
   \<and> 0x28 \<notin> set (ustr ''Zabaykalsk'') \<and> \<not> is_space (last (ustr ''Zabaykalsk''))
   \<and> 0x29 \<notin> set (ustr ''avto'') \<and> 0x0A \<notin> set (ustr ''avto'')
   \<and> re_sub_parens (ustr '' (avto)'') = []
   \<and> \<not> (\<exists>ws g rest. ustr ''Zabaykalsk (avto)'' = ws @ 0x28 # g @ 0x29 # rest
          \<and> (\<forall>c \<in> set ws. is_space c) \<and> 0x0A \<notin> set g)
   \<and> re_sub_parens (ustr ''Zabaykalsk (avto)'') = 0x5A # re_sub_parens (ustr ''abaykalsk (avto)'')
   \<and> py_strip (ustr '' Zabaykalsk  '') = ustr ''Zabaykalsk''
   \<and> \<not> (\<exists>a g rest. ustr ''A (b'' @ 0x0A # ustr ''c)'' = a @ 0x28 # g @ 0x29 # rest \<and> 0x0A \<notin> set g)
   \<and> re_sub_parens (ustr ''A (b'' @ 0x0A # ustr ''c)'') = ustr ''A (b'' @ 0x0A # ustr ''c)''"
proof -
  have h: "0x28 \<notin> set (ustr ''Zabaykalsk'')" "\<not> is_space (last (ustr ''Zabaykalsk''))"
    "0x29 \<notin> set (ustr ''avto'')" "0x0A \<notin> set (ustr ''avto'')"
    and sp: "\<forall>c \<in> set (ustr '' ''). is_space c" "\<forall>c \<in> set (ustr ''  ''). is_space c"
    "\<not> is_space (hd (ustr ''Zabaykalsk''))"
    by (simp_all add: ustr_def is_space_def)
  have f: "\<not> (\<exists>ws g rest. 0x5A # ustr ''abaykalsk (avto)'' = ws @ 0x28 # g @ 0x29 # rest
          \<and> (\<forall>c \<in> set ws. is_space c) \<and> 0x0A \<notin> set g)"
    unfolding match_paren_None_iff [symmetric]
    by (simp add: match_paren_def ustr_def is_space_def)
  have u: "\<not> (\<exists>a g rest. ustr ''A (b'' @ 0x0A # ustr ''c)'' = a @ 0x28 # g @ 0x29 # rest \<and> 0x0A \<notin> set g)"
    by (auto simp: ustr_def append_eq_Cons_conv Cons_eq_append_conv)
  have e: "ustr ''Zabaykalsk'' @ ustr '' '' @ 0x28 # ustr ''avto'' @ 0x29 # [] @ []
      = ustr ''Zabaykalsk (avto)''"
    "ustr '' '' @ 0x28 # ustr ''avto'' @ 0x29 # [] @ [] = ustr '' (avto)''"
    "ustr '' '' @ ustr ''Zabaykalsk'' @ ustr ''  '' = ustr '' Zabaykalsk  ''"
    "0x5A # ustr ''abaykalsk (avto)'' = ustr ''Zabaykalsk (avto)''"
    by (simp_all add: ustr_def)
  have s: "py_strip (ustr ''Zabaykalsk'' @ []) = ustr ''Zabaykalsk''"
    by (simp add: py_strip_def ustr_def is_space_def)
  note t = name_en_of_groups [where full_name = "ustr ''Zabaykalsk''"
      and wa = "ustr '' ''" and inner = "ustr ''avto''" and wb = "[]"
      and post = "[]" and pre = "ustr ''Zabaykalsk''" and x = "0x5A" and xs = "ustr ''abaykalsk (avto)''"
      and sa = "ustr '' ''" and core = "ustr ''Zabaykalsk''" and sb = "ustr ''  ''"
      and s = "ustr ''A (b'' @ 0x0A # ustr ''c)''" and fl = rat_floats and t = 0 and ts = "[]"]
  note d1 = t [THEN conjunct2]
  note d2 = d1 [THEN conjunct2]
  note d3 = d2 [THEN conjunct2]
  note d4 = d3 [THEN conjunct2]
  note d5 = d4 [THEN conjunct2]
  note d6 = d5 [THEN conjunct2]
  from t [THEN conjunct1] h(1) have 1: "name_en_of (ustr ''Zabaykalsk'') = ustr ''Zabaykalsk''"
    by simp
  note 0 = d1 [THEN conjunct1]
  from h(3,4) sp(1) have "re_sub_parens (ustr '' '' @ 0x28 # ustr ''avto'' @ 0x29 # [] @ [])
      = re_sub_parens []"
    by (intro d2 [THEN conjunct1, THEN mp]) simp
  then have 2: "re_sub_parens (ustr '' (avto)'') = []" unfolding e(2) 0 .
  from f have 3: "re_sub_parens (0x5A # ustr ''abaykalsk (avto)'')
      = 0x5A # re_sub_parens (ustr ''abaykalsk (avto)'')"
    by (rule d3 [THEN conjunct1, THEN mp])
  from sp h(2) have "py_strip (ustr '' '' @ ustr ''Zabaykalsk'' @ ustr ''  '') = ustr ''Zabaykalsk''"
    by (intro d4 [THEN conjunct1, THEN mp]) simp
  then have 4: "py_strip (ustr '' Zabaykalsk  '') = ustr ''Zabaykalsk''" unfolding e(3) .
  from h sp(1) have "name_en_of (ustr ''Zabaykalsk'' @ ustr '' '' @ 0x28 # ustr ''avto'' @ 0x29 # [] @ [])
        = py_strip (ustr ''Zabaykalsk'' @ re_sub_parens [])"
    by (intro d5 [THEN conjunct1, THEN mp]) simp
  then have 5: "name_en_of (ustr ''Zabaykalsk (avto)'') = ustr ''Zabaykalsk''"
    unfolding e(1) 0 s .
  from u have 6: "re_sub_parens (ustr ''A (b'' @ 0x0A # ustr ''c)'') = ustr ''A (b'' @ 0x0A # ustr ''c)''"
    by (rule d6 [THEN conjunct1, THEN mp])
  from 1 2 3 4 5 6 h f u show ?thesis unfolding e(4) by blast
qed

text \<open>
  The claim as it is stated fails: with two groups, removing the first one only leaves
  \<^verbatim>\<open>AC (d)\<close>, and the code returns \<^verbatim>\<open>AC\<close>.
\<close>

theorem name_en_of_two_groups:
  "remove_first_group (ustr ''A (b) C (d)'') = ustr ''AC (d)''
   \<and> name_en_of (ustr ''A (b) C (d)'') = ustr ''AC''"
  by (simp add: name_en_of_def match_paren_def py_strip_def ustr_def is_space_def)

section \<open>Properties of the status extraction\<close>

lemma capture_exact:
  assumes "cap \<noteq> []" "\<forall>c \<in> set cap. c \<noteq> 0x0A \<and> c \<noteq> 0x3C"
    "rest = [] \<or> hd rest = 0x0A \<or> hd rest = 0x3C"
  shows "capture (cap @ rest) = Some cap"
proof -
  have "takeWhile (\<lambda>c. c \<noteq> 0x0A \<and> c \<noteq> 0x3C) rest = []"
    using assms(3) by (cases rest) auto
  then have "takeWhile (\<lambda>c. c \<noteq> 0x0A \<and> c \<noteq> 0x3C) (cap @ rest) = cap"
    using assms(2) by (simp add: takeWhile_append2)
  with assms(1) show ?thesis by (simp add: capture_def)
qed

lemma match_ws_skip:
  assumes "\<forall>c \<in> set ws. is_space c" "cap \<noteq> []" "\<not> is_space (hd cap)"
    "\<forall>c \<in> set cap. c \<noteq> 0x0A \<and> c \<noteq> 0x3C" "rest = [] \<or> hd rest = 0x0A \<or> hd rest = 0x3C"
  shows "match_ws (ws @ cap @ rest) = Some cap"
  using assms(1)
proof (induction ws)
  case Nil
  from assms(2) obtain c cs where c: "cap = c # cs" by (cases cap) auto
  with assms(3) have "\<not> is_space c" by simp
  moreover have "capture (c # cs @ rest) = Some (c # cs)"
    using capture_exact [OF assms(2,4,5)] c by simp
  ultimately show ?case using c by simp
next
  case (Cons w ws)
  then show ?case by simp
qed

lemma prefix_shorter:
  assumes "prefix m (a @ w)" "length m \<le> length a"
  shows "prefix m a"
proof -
  from assms(1) obtain zs where "a @ w = m @ zs" by (auto simp: prefix_def)
  then have "take (length m) (a @ w) = take (length m) (m @ zs)" by simp
  with assms(2) have "take (length m) a = m" by simp
  then have "a = m @ drop (length m) a" by (metis append_take_drop_id)
  then show ?thesis by (metis prefixI)
qed

lemma contains_prefix: "prefix p s \<Longrightarrow> contains p s"
  by (cases s) auto

lemma search_status_absent: "\<not> contains status_marker d \<Longrightarrow> search_status d = None"
proof (induction d)
  case Nil
  then show ?case by (simp add: match_status_at_def status_marker_def)
next
  case (Cons x d)
  then have "\<not> prefix status_marker (x # d)" "\<not> contains status_marker d" by auto
  with Cons.IH show ?case by (simp add: match_status_at_def)
qed

lemma search_status_first:
  assumes "\<not> contains status_marker (pre @ butlast status_marker)"
    and "match_ws tail = Some g"
  shows "search_status (pre @ status_marker @ tail) = Some g"
  using assms(1)
proof (induction pre)
  case Nil
  have "status_marker @ tail \<noteq> []" by (simp add: status_marker_def)
  then obtain x xs where x: "status_marker @ tail = x # xs" by (cases "status_marker @ tail") auto
  have "match_status_at (status_marker @ tail) = Some g"
    using assms(2) by (simp add: match_status_at_def)
  with x show ?case by simp
next
  case (Cons x pre)
  have "\<not> prefix status_marker ((x # pre) @ status_marker @ tail)"
  proof
    assume "prefix status_marker ((x # pre) @ status_marker @ tail)"
    then have "prefix status_marker (((x # pre) @ butlast status_marker) @ last status_marker # tail)"
      by (simp add: status_marker_def)
    then have "prefix status_marker ((x # pre) @ butlast status_marker)"
      by (rule prefix_shorter) (simp add: status_marker_def)
    then have "contains status_marker ((x # pre) @ butlast status_marker)"
      by (rule contains_prefix)
    with Cons.prems show False by simp
  qed
  moreover from Cons.prems have "\<not> contains status_marker (pre @ butlast status_marker)" by auto
  ultimately show ?case using Cons.IH by (simp add: match_status_at_def)
qed

subsection \<open>Claim C5: the status of a description\<close>

text \<open>
  Claim C5, as amended. Let the description be a text \<open>pre\<close> in which the marker does not
  occur, then the marker, whitespace, a non-empty text \<open>cap\<close> without newline and \<^verbatim>\<open><\<close>
  that does not start with whitespace, and a rest that is empty or starts with a newline
  or \<^verbatim>\<open><\<close>. Then \<open>cap\<close> is the captured text, and \<^verbatim>\<open>extract_status\<close> returns 1 when the
  stripped \<open>cap\<close> contains the bilateral term written with a capital or a small first letter
  and the other letters small, else 2 when it contains the multilateral term written in one
  of these two ways, else null. A description without the marker gives null.
\<close>

theorem extract_status_marker:
  "(\<not> contains status_marker (pre @ butlast status_marker)
      \<and> (\<forall>c \<in> set ws. is_space c) \<and> cap \<noteq> [] \<and> \<not> is_space (hd cap)
      \<and> (\<forall>c \<in> set cap. c \<noteq> 0x0A \<and> c \<noteq> 0x3C)
      \<and> (rest = [] \<or> hd rest = 0x0A \<or> hd rest = 0x3C) \<longrightarrow>
    search_status (pre @ status_marker @ ws @ cap @ rest) = Some cap
    \<and> extract_status (JStr (pre @ status_marker @ ws @ cap @ rest)) =
       (if contains Bilateral_ru (py_strip cap) \<or> contains bilateral_ru (py_strip cap)
        then JInt 1
        else if contains Multilateral_ru (py_strip cap) \<or> contains multilateral_ru (py_strip cap)
        then JInt 2 else (JNull :: 'f json)))
   \<and> (\<not> contains status_marker d \<longrightarrow> extract_status (JStr d) = (JNull :: 'f json))"
proof -
  have 1: "search_status (pre @ status_marker @ ws @ cap @ rest) = Some cap"
    if "\<not> contains status_marker (pre @ butlast status_marker)
      \<and> (\<forall>c \<in> set ws. is_space c) \<and> cap \<noteq> [] \<and> \<not> is_space (hd cap)
      \<and> (\<forall>c \<in> set cap. c \<noteq> 0x0A \<and> c \<noteq> 0x3C)
      \<and> (rest = [] \<or> hd rest = 0x0A \<or> hd rest = 0x3C)"
    using that match_ws_skip [of ws cap rest] search_status_first [of pre "ws @ cap @ rest" cap]
    by blast
  have 2: "extract_status (JStr d) = (JNull :: 'f json)" if "\<not> contains status_marker d"
    using search_status_absent [OF that] by simp
  from 1 2 show ?thesis by (simp add: status_of_text_def)
qed

theorem extract_status_marker_witness:
  "\<not> contains status_marker (ustr ''<p>'' @ butlast status_marker)
   \<and> extract_status (JStr (ustr ''<p>'' @ status_marker @ ustr '' '' @ Multilateral_ru @ ustr ''<br>''))
       = (JInt 2 :: rat json)
   \<and> \<not> contains status_marker (ustr ''abc'')
   \<and> extract_status (JStr (ustr ''abc'')) = (JNull :: rat json)"
proof -
  have h: "\<not> contains status_marker (ustr ''<p>'' @ butlast status_marker)"
    "\<forall>c \<in> set (ustr '' ''). is_space c" "Multilateral_ru \<noteq> []" "\<not> is_space (hd Multilateral_ru)"
    "\<forall>c \<in> set Multilateral_ru. c \<noteq> 0x0A \<and> c \<noteq> 0x3C"
    "hd (ustr ''<br>'') = 0x3C" "\<not> contains status_marker (ustr ''abc'')"
    by (simp_all add: status_marker_def Multilateral_ru_def ustr_def is_space_def)
  have c: "\<not> contains Bilateral_ru (py_strip Multilateral_ru)"
    "\<not> contains bilateral_ru (py_strip Multilateral_ru)"
    "contains Multilateral_ru (py_strip Multilateral_ru)"
    by (simp_all add: py_strip_def Multilateral_ru_def Bilateral_ru_def bilateral_ru_def is_space_def)
  from extract_status_marker [of "ustr ''<p>''" "ustr '' ''" Multilateral_ru "ustr ''<br>''" "ustr ''abc''",
      where ?'f = rat] h c
  show ?thesis by (simp add: status_of_text_def)
qed

text \<open>
  The claim as it is stated fails: the test is not case-insensitive. The bilateral term
  in capital letters after the marker gives null.
\<close>

theorem extract_status_upper_case:
  "extract_status (JStr (status_marker @ ustr '' '' @ BILATERAL_ru)) = (JNull :: rat json)"
  by (simp add: status_marker_def BILATERAL_ru_def match_status_at_def capture_def
      status_of_text_def py_strip_def Bilateral_ru_def bilateral_ru_def Multilateral_ru_def
      multilateral_ru_def ustr_def is_space_def)

section \<open>Properties of the GeoJSON conversion\<close>

lemma int_overflows_0: "\<not> int_overflows 0" "\<not> int_overflows 1"
  by (simp_all add: int_overflows_def)

lemma int_overflows_big: "int_overflows (10 ^ 400)"
  by (simp add: int_overflows_def)

lemma py_float_0: "py_float fl (JInt 0) = Inr (float_of_int fl 0)"
  by (simp add: int_overflows_0)

lemma coordinates_of_JObj:
  "coordinates_of fl (JObj kvs) =
     bind_err (py_float fl (case map_of kvs (ustr ''latitude'') of Some v \<Rightarrow> v | None \<Rightarrow> JInt 0)) (\<lambda>lat.
     bind_err (py_float fl (case map_of kvs (ustr ''longitude'') of Some v \<Rightarrow> v | None \<Rightarrow> JInt 0)) (\<lambda>lon.
       Inr (lat, lon)))"
  by (simp add: coordinates_of_def)


lemma convert_items_skip:
  "coordinates_of fl (JObj kvs) = Inl e \<Longrightarrow> e = ValueError \<or> e = TypeError \<Longrightarrow>
     convert_items fl fs sk (JObj kvs # rest) = convert_items fl fs (sk + 1) rest"
  by auto

lemma convert_items_fatal:
  "coordinates_of fl item = Inl e \<Longrightarrow> e \<noteq> ValueError \<Longrightarrow> e \<noteq> TypeError \<Longrightarrow>
     convert_items fl fs sk (item # rest) = Inl e"
  by simp

lemma dict_set_new: "k \<notin> fst ` set d \<Longrightarrow> dict_set d k v = d @ [(k, v)]"
  by (induction d) auto

lemma copy_properties_filter:
  "distinct (map fst (acc @ kvs)) \<Longrightarrow>
     copy_properties acc kvs
       = acc @ filter (\<lambda>(k, v). k \<noteq> ustr ''latitude'' \<and> k \<noteq> ustr ''longitude'') kvs"
proof (induction kvs arbitrary: acc)
  case Nil
  then show ?case by simp
next
  case (Cons kv kvs)
  obtain k v where kv: "kv = (k, v)" by (cases kv)
  from Cons.prems kv have new: "k \<notin> fst ` set acc" by auto
  from Cons.prems kv have d1: "distinct (map fst ((acc @ [(k, v)]) @ kvs))" by auto
  from Cons.prems kv have d2: "distinct (map fst (acc @ kvs))" by auto
  show ?case
  proof (cases "k \<noteq> ustr ''latitude'' \<and> k \<noteq> ustr ''longitude''")
    case True
    with Cons.IH [OF d1] kv new show ?thesis by (simp add: dict_set_new)
  next
    case False
    with Cons.IH [OF d2] kv show ?thesis by auto
  qed
qed

lemma copy_properties_fields:
  "distinct (map fst kvs) \<Longrightarrow>
     copy_properties [] kvs
       = filter (\<lambda>(k, v). k \<noteq> ustr ''latitude'' \<and> k \<noteq> ustr ''longitude'') kvs"
  using copy_properties_filter [of "[]" kvs] by simp

lemma json_to_geojson_item:
  assumes "py_float fl (case map_of kvs (ustr ''latitude'') of Some v \<Rightarrow> v | None \<Rightarrow> JInt 0) = Inr lat"
    and "py_float fl (case map_of kvs (ustr ''longitude'') of Some v \<Rightarrow> v | None \<Rightarrow> JInt 0) = Inr lon"
  shows "json_to_geojson fl (JArr [JObj kvs]) =
     Inr (JObj [(ustr ''type'', JStr (ustr ''FeatureCollection'')),
                (ustr ''features'', JArr [feature_of lon lat (copy_properties [] kvs)])], 0)"
proof -
  from assms have "coordinates_of fl (JObj kvs) = Inr (lat, lon)"
    by (simp add: coordinates_of_JObj)
  then show ?thesis by (simp add: json_to_geojson_def)
qed

lemma json_to_geojson_skipped:
  assumes "coordinates_of fl (JObj kvs) = Inl e" "e = ValueError \<or> e = TypeError"
  shows "json_to_geojson fl (JArr [JObj kvs]) =
     Inr (JObj [(ustr ''type'', JStr (ustr ''FeatureCollection'')), (ustr ''features'', JArr [])], 1)"
  using assms by (auto simp: json_to_geojson_def)

lemma parse_examples:
  "parse_decimal (ustr ''51.5'') = Some (103 / 2)" "parse_decimal (ustr ''113.0'') = Some 113"
  "parse_decimal (ustr ''x'') = None"
  by (simp_all add: parse_decimal_def parse_unsigned_def is_digit_def digits_value_def ustr_def)

lemma json_to_geojson_example:
  "json_to_geojson rat_floats
     (JArr [JObj [(ustr ''name'', JStr (ustr ''A'')), (ustr ''latitude'', JStr (ustr ''51.5'')),
                  (ustr ''longitude'', JStr (ustr ''113.0''))]])
   = Inr (JObj [(ustr ''type'', JStr (ustr ''FeatureCollection'')),
                (ustr ''features'',
                 JArr [JObj [(ustr ''type'', JStr (ustr ''Feature'')),
                             (ustr ''geometry'',
                              JObj [(ustr ''type'', JStr (ustr ''Point'')),
                                    (ustr ''coordinates'', JArr [JFloat 113, JFloat (103 / 2)])]),
                             (ustr ''properties'', JObj [(ustr ''name'', JStr (ustr ''A''))])]])],
          0)"
  by (simp add: json_to_geojson_def coordinates_of_def rat_floats_def parse_examples feature_of_def)

subsection \<open>Claim C9: one feature per item, bad coordinates skipped\<close>

text \<open>
  Claim C9 fails on the code. An item whose two coordinates convert gives one feature with
  the point \<open>[lon, lat]\<close> and the other fields as properties (\<open>json_to_geojson_item\<close>,
  \<open>copy_properties_fields\<close>; the strings \<^verbatim>\<open>51.5\<close> and \<^verbatim>\<open>113.0\<close> give \<open>[113, 51.5]\<close>,
  \<open>json_to_geojson_example\<close>), and an item whose conversion raises \<^verbatim>\<open>ValueError\<close> or
  \<^verbatim>\<open>TypeError\<close> is skipped and counted (\<open>json_to_geojson_skipped\<close>). But the handler does
  not catch \<^verbatim>\<open>OverflowError\<close>, which \<^verbatim>\<open>float\<close> raises on an integer beyond the range of a
  double: an item with the latitude \<open>10 ^ 400\<close> ends the script.
\<close>

theorem json_to_geojson_overflow:
  "json_to_geojson fl
     (JArr [JObj [(ustr ''latitude'', JInt (10 ^ 400)), (ustr ''longitude'', JInt 0)]])
   = Inl OverflowError"
proof -
  have "coordinates_of fl (JObj [(ustr ''latitude'', JInt (10 ^ 400)), (ustr ''longitude'', JInt 0)])
      = Inl OverflowError"
    using int_overflows_big by (simp add: coordinates_of_JObj)
  then show ?thesis by (simp add: json_to_geojson_def)
qed

theorem json_to_geojson_overflow_witness:
  "json_to_geojson rat_floats
     (JArr [JObj [(ustr ''latitude'', JInt (10 ^ 400)), (ustr ''longitude'', JInt 0)]])
   = Inl OverflowError"
  using json_to_geojson_overflow [of rat_floats] .

subsection \<open>Claim C10: an absent coordinate key\<close>




end
